theory Spec2Isabelle
  imports Main "HOL-Library.Char_ord" "HOL-Library.List_Lexorder" "HOL-Library.Product_Lexorder"
    "HOL-Library.AList" "HOL-Library.Sublist"
begin

section \<open>Exceptions of the script\<close>

text \<open>
  The script \<^verbatim>\<open>ingest_missing.py\<close> is Python 2 (it iterates a dict with
  \<^verbatim>\<open>iteritems\<close>). Every exception that one of the modelled functions can raise is a
  constructor of \<open>error\<close>; a function that can raise returns \<open>error + 'a\<close> with the
  exception on the left.
\<close>

datatype error = KeyError | IndexError | TypeError | ValueError | OverflowError | IOError
  | NameError | TimeoutException | Killed

text \<open>
  \<^verbatim>\<open>TimeoutException\<close> is the exception class the script defines itself. \<open>Killed\<close> is
  no exception: it stands for the end of the process by a signal whose default action is
  taken, which no \<^verbatim>\<open>except\<close> clause can catch.
\<close>

section \<open>The ingest ledger: class PreviousIngests\<close>

text \<open>
  \<^verbatim>\<open>self.previous_ingests\<close> is a dict from reference designator to the list of
  missing dates already handed on. The entries are whatever the caller passes as
  \<^verbatim>\<open>missing_date\<close>, so the model is polymorphic in them.
\<close>

type_synonym 'd ledger = "string \<rightharpoonup> 'd list"

text \<open>
  \<^verbatim>\<open>
  def is_in_previous_ingests(self, refdes, missing_date):
      try:
          if missing_date in self.previous_ingests[refdes]:
              return True
          else:
              self.previous_ingests[refdes].append(missing_date)
              return False
      except KeyError:
          self.previous_ingests[refdes].append(missing_date)
          return False
  \<close>
  The dict is mutated in place: the model returns it with the answer. When \<open>refdes\<close> is
  no key, the subscript in the \<^verbatim>\<open>try\<close> block raises KeyError; the handler
  subscripts the same dict with the same key, which raises KeyError again, outside any
  \<^verbatim>\<open>try\<close>, so the call ends with KeyError and the dict unchanged.
\<close>

definition is_in_previous_ingests ::
  "'d ledger \<Rightarrow> string \<Rightarrow> 'd \<Rightarrow> error + (bool \<times> 'd ledger)" where
  "is_in_previous_ingests previous_ingests refdes missing_date =
     (case previous_ingests refdes of
        Some dates \<Rightarrow>
          if missing_date \<in> set dates then Inr (True, previous_ingests)
          else Inr (False, previous_ingests(refdes \<mapsto> dates @ [missing_date]))
      | None \<Rightarrow> Inl KeyError)"

text \<open>
  The pickle files of the working directory: a file name is bound to the object that was
  dumped into it. Pickling a dict of lists of strings or tuples and loading it again gives
  an equal object, so a file's content is the ledger itself.
\<close>

type_synonym 'd files = "string \<rightharpoonup> 'd ledger"

text \<open>
  \<^verbatim>\<open>
  def load_previous_ingests(self):
      pickle.load(open("previous_ingest.pickle", "rb"))
  \<close>
  \<^verbatim>\<open>open\<close> raises IOError when the file does not exist. The loaded object is dropped:
  the function has no \<^verbatim>\<open>return\<close>, so the caller gets Python's \<^verbatim>\<open>None\<close>, written
  \<open>None\<close> here (a returned ledger would be \<open>Some\<close> of it).
\<close>

definition load_previous_ingests :: "'d files \<Rightarrow> error + 'd ledger option" where
  "load_previous_ingests fs =
     (case fs ''previous_ingest.pickle'' of
        None \<Rightarrow> Inl IOError
      | Some loaded \<Rightarrow> Inr None)"

text \<open>
  \<^verbatim>\<open>
  def write_previous_ingests(self, previous_ingests):
      pickle.dump(previous_ingests, open("previous_ingests.pickle", "wb"))
  \<close>
\<close>

definition write_previous_ingests :: "'d files \<Rightarrow> 'd ledger \<Rightarrow> 'd files" where
  "write_previous_ingests fs previous_ingests =
     fs(''previous_ingests.pickle'' \<mapsto> previous_ingests)"

section \<open>The driver catalog: a pandas DataFrame\<close>

text \<open>
  \<^verbatim>\<open>pd.read_csv(url, sep='\s{2,}', engine='python', dtype=str)\<close> yields a table whose
  cells are strings or the missing-value marker NaN. The table that \<^verbatim>\<open>read_csv\<close>
  returns is the input of the model; its rows are numbered from 0 in file order (the
  default index), and only the three columns the script reads are kept.
\<close>

datatype cell = NaN | Str string

record row =
  Reference_Designator :: cell
  Type :: cell
  Driver :: cell

type_synonym dataframe = "row list"

text \<open>
  The element-wise \<^verbatim>\<open>==\<close> of pandas: NaN is equal to nothing, not even to NaN.
\<close>

fun cell_eq :: "cell \<Rightarrow> cell \<Rightarrow> bool" where
  "cell_eq (Str a) (Str b) = (a = b)"
| "cell_eq a b = False"

text \<open>\<^verbatim>\<open>Series.shift(1)\<close>: every value moves one row down, the first row gets NaN.\<close>

definition shift1 :: "cell list \<Rightarrow> cell list" where
  "shift1 column = take (length column) (NaN # column)"

text \<open>
  \<^verbatim>\<open>
  df.loc[df['Type'] == 'None', ['Type']] = df['Reference Designator']
  df.loc[df['Reference Designator'] == df['Type'], ['Reference Designator']] =
      df['Reference Designator'].shift(1)
  \<close>
  Both assignments align the right-hand column with the selected rows by index. The
  right-hand side of the second one is evaluated before the assignment, so the shifted
  column holds the designators as they stand after the first statement (which does not
  change them).
\<close>

definition fill_type :: "row \<Rightarrow> row" where
  "fill_type r =
     (if cell_eq (Type r) (Str ''None'') then r\<lparr>Type := Reference_Designator r\<rparr> else r)"

definition fold_designator :: "row \<Rightarrow> cell \<Rightarrow> row" where
  "fold_designator r shifted =
     (if cell_eq (Reference_Designator r) (Type r)
      then r\<lparr>Reference_Designator := shifted\<rparr> else r)"

definition request_cabled_raw :: "dataframe \<Rightarrow> dataframe" where
  "request_cabled_raw csv =
     (let df = map fill_type csv
      in map2 fold_designator df (shift1 (map Reference_Designator df)))"

text \<open>
  \<^verbatim>\<open>
  def get_driver(refdes):
      return Cabled.cabled_drivers_raw.loc[
          Cabled.cabled_drivers_raw['Reference Designator'] == refdes]['Driver'].iloc[0]
  \<close>
  \<^verbatim>\<open>iloc[0]\<close> on an empty selection raises IndexError. The class attribute
  \<^verbatim>\<open>Cabled.cabled_drivers_raw\<close> is the first argument of the three catalog functions.
\<close>

definition rows_of :: "dataframe \<Rightarrow> string \<Rightarrow> dataframe" where
  "rows_of cabled_drivers_raw refdes =
     filter (\<lambda>r. cell_eq (Reference_Designator r) (Str refdes)) cabled_drivers_raw"

definition get_driver :: "dataframe \<Rightarrow> string \<Rightarrow> error + cell" where
  "get_driver cabled_drivers_raw refdes =
     (case rows_of cabled_drivers_raw refdes of
        [] \<Rightarrow> Inl IndexError
      | r # rest \<Rightarrow> Inr (Driver r))"

text \<open>
  \<^verbatim>\<open>
  def get_reader_type(refdes):
      reader = []
      df = Cabled.cabled_drivers_raw[Cabled.cabled_drivers_raw['Reference Designator'] == refdes]
      for i in df.index:
          if df['Type'].loc[i] != 'nan':
              reader.append(df['Type'].loc[i])
      return reader
  \<close>
  The test is Python's \<^verbatim>\<open>!=\<close> between a cell and the string \<^verbatim>\<open>'nan'\<close>: only a cell
  that holds that very string is left out.
\<close>

fun reader_loop :: "row list \<Rightarrow> cell list \<Rightarrow> cell list" where
  "reader_loop [] reader = reader"
| "reader_loop (r # df) reader =
     (if Type r \<noteq> Str ''nan'' then reader_loop df (reader @ [Type r])
      else reader_loop df reader)"

definition get_reader_type :: "dataframe \<Rightarrow> string \<Rightarrow> cell list" where
  "get_reader_type cabled_drivers_raw refdes =
     reader_loop (rows_of cabled_drivers_raw refdes) []"

text \<open>
  \<^verbatim>\<open>
  def is_cabled(refdes):
      if not Cabled.cabled_drivers_raw.loc[
              Cabled.cabled_drivers_raw['Reference Designator'] == refdes].empty:
          return True
      return False
  \<close>
\<close>

definition is_cabled :: "dataframe \<Rightarrow> string \<Rightarrow> bool" where
  "is_cabled cabled_drivers_raw refdes = (rows_of cabled_drivers_raw refdes \<noteq> [])"

section \<open>Timestamps: datetime, strptime, strftime\<close>

text \<open>
  A \<^verbatim>\<open>datetime\<close> object is its six calendar fields (the script never sets
  microseconds or a time zone).
\<close>

record datetime =
  year :: nat
  month :: nat
  day :: nat
  hour :: nat
  minute :: nat
  second :: nat

definition is_leap :: "nat \<Rightarrow> bool" where
  "is_leap y = (y mod 4 = 0 \<and> (y mod 100 \<noteq> 0 \<or> y mod 400 = 0))"

definition days_in_month :: "nat \<Rightarrow> nat \<Rightarrow> nat" where
  "days_in_month y m =
     (if m = 2 then (if is_leap y then 29 else 28)
      else if m = 4 \<or> m = 6 \<or> m = 9 \<or> m = 11 then 30 else 31)"

text \<open>
  \<^verbatim>\<open>datetime.strptime(s, '%Y-%m-%d %H:%M:%S')\<close>. Python 2's \<^verbatim>\<open>_strptime\<close> turns the
  format into the regular expression
  \<^verbatim>\<open>
  (?P<Y>\d\d\d\d)-(?P<m>1[0-2]|0[1-9]|[1-9])-(?P<d>3[0-1]|[1-2]\d|0[1-9]|[1-9]| [1-9])
  \s+(?P<H>2[0-3]|[0-1]\d|\d):(?P<M>[0-5]\d|\d):(?P<S>6[0-1]|[0-5]\d|\d)
  \<close>
  (every directive its own group of alternatives, the blank of the format a run of
  white space), matches it at the start of the string with \<^verbatim>\<open>re.match\<close>, raises
  ValueError when there is no match or when the match does not reach the end of the
  string, and converts the groups with \<^verbatim>\<open>int\<close>. The \<^verbatim>\<open>datetime\<close> constructor then
  raises ValueError for fields that do not make a date (year 0, 30 February, second 60).
  So fields may be written without their leading zero.

  The pieces of such an expression: a character is a digit between two bounds or one
  given character; a directive is a list of alternatives, tried in order, each a sequence
  of such characters; a literal character; a run of white space, longest first. A match
  of a list of pieces takes, for each piece in turn, the first way to match it for which
  the rest of the pieces match as well.
\<close>

definition is_digit :: "char \<Rightarrow> bool" where
  "is_digit c = (CHR ''0'' \<le> c \<and> c \<le> CHR ''9'')"

definition digit_val :: "char \<Rightarrow> nat" where
  "digit_val c = of_char c - 48"

definition digit_char :: "nat \<Rightarrow> char" where
  "digit_char d = ''0123456789'' ! (d mod 10)"

definition is_space :: "char \<Rightarrow> bool" where
  "is_space c = (c \<in> set [CHR '' '', CHR 0x09, CHR 0x0A, CHR 0x0B, CHR 0x0C, CHR 0x0D])"

definition int_of :: "string \<Rightarrow> nat" where
  "int_of s = foldl (\<lambda>n c. 10 * n + digit_val c) 0 (dropWhile is_space s)"

datatype char_class = Digit nat nat | Exactly char

fun in_class :: "char_class \<Rightarrow> char \<Rightarrow> bool" where
  "in_class (Digit lo hi) c = (is_digit c \<and> lo \<le> digit_val c \<and> digit_val c \<le> hi)"
| "in_class (Exactly x) c = (c = x)"

datatype piece = Directive "char_class list list" | Literal char | White_space

definition alternative_matches :: "char_class list \<Rightarrow> string \<Rightarrow> bool" where
  "alternative_matches alternative s =
     (length alternative \<le> length s
      \<and> list_all2 in_class alternative (take (length alternative) s))"

fun countdown :: "nat \<Rightarrow> nat list" where
  "countdown 0 = []"
| "countdown (Suc n) = Suc n # countdown n"

text \<open>
  The ways one piece matches at the start of a string, in the order in which they are
  tried: the text a directive captures (if the piece is one), and the rest of the string.
\<close>

fun ways :: "piece \<Rightarrow> string \<Rightarrow> (string option \<times> string) list" where
  "ways (Directive alternatives) s =
     map (\<lambda>alternative. (Some (take (length alternative) s), drop (length alternative) s))
       (filter (\<lambda>alternative. alternative_matches alternative s) alternatives)"
| "ways (Literal c) s =
     (case s of [] \<Rightarrow> [] | x # rest \<Rightarrow> if x = c then [(None, rest)] else [])"
| "ways White_space s =
     map (\<lambda>n. (None, drop n s)) (countdown (length (takeWhile is_space s)))"

fun first_some :: "('a \<Rightarrow> 'b option) \<Rightarrow> 'a list \<Rightarrow> 'b option" where
  "first_some f [] = None"
| "first_some f (x # xs) = (case f x of Some y \<Rightarrow> Some y | None \<Rightarrow> first_some f xs)"

primrec re_match :: "piece list \<Rightarrow> string \<Rightarrow> (string list \<times> string) option" where
  "re_match [] s = Some ([], s)"
| "re_match (p # ps) s =
     first_some
       (\<lambda>way. case re_match ps (snd way) of
                 None \<Rightarrow> None
               | Some (groups, unconverted) \<Rightarrow>
                   Some ((case fst way of None \<Rightarrow> groups | Some g \<Rightarrow> g # groups),
                         unconverted))
       (ways p s)"

definition format_regex :: "piece list" where
  "format_regex =
     [Directive [[Digit 0 9, Digit 0 9, Digit 0 9, Digit 0 9]],
      Literal CHR ''-'',
      Directive [[Digit 1 1, Digit 0 2], [Digit 0 0, Digit 1 9], [Digit 1 9]],
      Literal CHR ''-'',
      Directive [[Digit 3 3, Digit 0 1], [Digit 1 2, Digit 0 9], [Digit 0 0, Digit 1 9],
                 [Digit 1 9], [Exactly CHR '' '', Digit 1 9]],
      White_space,
      Directive [[Digit 2 2, Digit 0 3], [Digit 0 1, Digit 0 9], [Digit 0 9]],
      Literal CHR '':'',
      Directive [[Digit 0 5, Digit 0 9], [Digit 0 9]],
      Literal CHR '':'',
      Directive [[Digit 6 6, Digit 0 1], [Digit 0 5, Digit 0 9], [Digit 0 9]]]"

definition strptime :: "string \<Rightarrow> error + datetime" where
  "strptime s =
     (case re_match format_regex s of
        None \<Rightarrow> Inl ValueError
      | Some (groups, unconverted) \<Rightarrow>
          if unconverted \<noteq> [] then Inl ValueError
          else
            (case map int_of groups of
               [Y, m, d, H, M, S] \<Rightarrow>
                 if 1 \<le> Y \<and> 1 \<le> m \<and> m \<le> 12 \<and> 1 \<le> d \<and> d \<le> days_in_month Y m
                    \<and> H \<le> 23 \<and> M \<le> 59 \<and> S \<le> 59
                 then Inr \<lparr>year = Y, month = m, day = d, hour = H, minute = M, second = S\<rparr>
                 else Inl ValueError
             | other \<Rightarrow> Inl ValueError))"

text \<open>
  \<^verbatim>\<open>strftime('%Y%m%dT%H')\<close>: four digits of year, two of month, two of day, the letter
  T, two of hour. In Python 2 the \<^verbatim>\<open>strftime\<close> of a \<^verbatim>\<open>datetime\<close> raises ValueError
  for a year before 1900.
\<close>

definition pad2 :: "nat \<Rightarrow> string" where
  "pad2 n = [digit_char (n div 10), digit_char n]"

definition pad4 :: "nat \<Rightarrow> string" where
  "pad4 n = pad2 (n div 100) @ pad2 (n mod 100)"

definition hour_label :: "datetime \<Rightarrow> string" where
  "hour_label t = pad4 (year t) @ pad2 (month t) @ pad2 (day t) @ ''T'' @ pad2 (hour t)"

definition strftime :: "datetime \<Rightarrow> error + string" where
  "strftime t = (if year t < 1900 then Inl ValueError else Inr (hour_label t))"

text \<open>
  \<^verbatim>\<open>date_time += timedelta(hours=1)\<close>: the next hour of the proleptic Gregorian
  calendar, minute and second unchanged; OverflowError past the last representable
  year, 9999 (\<^verbatim>\<open>datetime.MAXYEAR\<close>).
\<close>

definition plus_hour :: "datetime \<Rightarrow> error + datetime" where
  "plus_hour t =
     (if hour t < 23 then Inr (t\<lparr>hour := hour t + 1\<rparr>)
      else if day t < days_in_month (year t) (month t)
        then Inr (t\<lparr>day := day t + 1, hour := 0\<rparr>)
      else if month t < 12 then Inr (t\<lparr>month := month t + 1, day := 1, hour := 0\<rparr>)
      else if year t < 9999
        then Inr (t\<lparr>year := year t + 1, month := 1, day := 1, hour := 0\<rparr>)
      else Inl OverflowError)"

text \<open>Comparison of two \<^verbatim>\<open>datetime\<close> objects: field by field, year first.\<close>

definition dt_key :: "datetime \<Rightarrow> nat \<times> nat \<times> nat \<times> nat \<times> nat \<times> nat" where
  "dt_key t = (year t, month t, day t, hour t, minute t, second t)"

definition dt_less :: "datetime \<Rightarrow> datetime \<Rightarrow> bool" where
  "dt_less a b = (dt_key a < dt_key b)"

text \<open>The hour of a timestamp: the timestamp truncated to the hour.\<close>

definition hour_key :: "datetime \<Rightarrow> nat \<times> nat \<times> nat \<times> nat" where
  "hour_key t = (year t, month t, day t, hour t)"

section \<open>The interval expander: \<open>date_list\<close>\<close>

text \<open>
  \<^verbatim>\<open>
  def date_list(first_date, second_date):
      start_date = first_date if first_date < second_date else second_date
      end_date = second_date if first_date < second_date else first_date
      start_date = datetime.strptime(start_date, '%Y-%m-%d %H:%M:%S')
      end_date = datetime.strptime(end_date, '%Y-%m-%d %H:%M:%S')
      date_times = [start_date.strftime('%Y%m%dT%H')]
      date_time = start_date
      while date_time < end_date:
          date_time += timedelta(hours=1)
          date_times.append(date_time.strftime('%Y%m%dT%H'))
      return date_times
  \<close>
  The first two lines compare the two arguments as strings (byte by byte, a proper prefix
  first): that is \<open><\<close> on \<open>string\<close> here. The loop ends: every step moves to a later
  hour, and the hours end with year 9999; \<open>hours_left\<close> counts an upper bound of the
  hours that remain.
\<close>

definition hours_left :: "datetime \<Rightarrow> nat" where
  "hours_left t =
     (((9999 - year t) * 12 + (12 - month t)) * 31 + (31 - day t)) * 24 + (23 - hour t)"

lemma days_in_month_le: "days_in_month y m \<le> 31"
  by (simp add: days_in_month_def)

lemma plus_hour_hours_left:
  assumes "plus_hour t = Inr u"
  shows "hours_left u < hours_left t"
proof -
  have d: "days_in_month (year t) (month t) \<le> 31" by (rule days_in_month_le)
  show ?thesis
    using assms d
    by (auto simp: plus_hour_def hours_left_def split: if_splits)
qed

function date_loop :: "datetime \<Rightarrow> datetime \<Rightarrow> string list \<Rightarrow> error + string list" where
  "date_loop date_time end_date date_times =
     (if dt_less date_time end_date then
        (case plus_hour date_time of
           Inl e \<Rightarrow> Inl e
         | Inr next_time \<Rightarrow>
             (case strftime next_time of
                Inl e \<Rightarrow> Inl e
              | Inr label \<Rightarrow> date_loop next_time end_date (date_times @ [label])))
      else Inr date_times)"
  by pat_completeness auto
termination
  by (relation "measure (\<lambda>(date_time, end_date, date_times). hours_left date_time)")
     (auto simp: plus_hour_hours_left)

definition date_list :: "string \<Rightarrow> string \<Rightarrow> error + string list" where
  "date_list first_date second_date =
     (let start_date = (if first_date < second_date then first_date else second_date);
          end_date = (if first_date < second_date then second_date else first_date)
      in case strptime start_date of
           Inl e \<Rightarrow> Inl e
         | Inr start_time \<Rightarrow>
             (case strptime end_date of
                Inl e \<Rightarrow> Inl e
              | Inr end_time \<Rightarrow>
                  (case strftime start_time of
                     Inl e \<Rightarrow> Inl e
                   | Inr label \<Rightarrow> date_loop start_time end_time [label])))"

text \<open>
  Notions used to state what \<open>date_list\<close> returns: the timestamp written in the form
  \<^verbatim>\<open>YYYY-MM-DD HH:MM:SS\<close> with every field at its full width, leading zeros included;
  the \<open>n\<close> characters of a string from position \<open>i\<close> on; a run of timestamps each one
  hour after the one before; the range of field values of a \<^verbatim>\<open>datetime\<close>; and the
  condition under which the hourly steps from a start to the first one at or after an
  end stay within year 9999.
\<close>

definition isoformat :: "datetime \<Rightarrow> string" where
  "isoformat t = pad4 (year t) @ ''-'' @ pad2 (month t) @ ''-'' @ pad2 (day t) @ '' ''
                 @ pad2 (hour t) @ '':'' @ pad2 (minute t) @ '':'' @ pad2 (second t)"

definition field :: "string \<Rightarrow> nat \<Rightarrow> nat \<Rightarrow> string" where
  "field s i n = take n (drop i s)"

fun hourly :: "datetime \<Rightarrow> datetime list \<Rightarrow> bool" where
  "hourly t [] = True"
| "hourly t (u # us) = (plus_hour t = Inr u \<and> hourly u us)"

definition in_range :: "datetime \<Rightarrow> bool" where
  "in_range t = (1 \<le> year t \<and> year t \<le> 9999 \<and> 1 \<le> month t \<and> month t \<le> 12
                 \<and> 1 \<le> day t \<and> day t \<le> days_in_month (year t) (month t)
                 \<and> hour t \<le> 23 \<and> minute t \<le> 59 \<and> second t \<le> 59)"

definition last_hour :: "nat \<times> nat \<times> nat \<times> nat" where
  "last_hour = (9999, 12, 31, 23)"

definition steps_in_range :: "datetime \<Rightarrow> datetime \<Rightarrow> bool" where
  "steps_in_range start_time end_time =
     (hour_key end_time < last_hour
      \<or> (minute end_time, second end_time) \<le> (minute start_time, second start_time))"

section \<open>The outside world and the state of a run\<close>

text \<open>
  A missing date of the availability tool is a pair of timestamps, begin and end.
\<close>

type_synonym interval = "string \<times> string"

text \<open>
  What a run does is recorded as a trace of events: the two kinds of log lines
  (\<^verbatim>\<open>logging.info\<close>, \<^verbatim>\<open>logging.warning\<close>), every shell command started with
  \<^verbatim>\<open>call\<close> together with the seconds the script waited for it, and every call of
  \<^verbatim>\<open>playback\<close> with the reference designator and the list of time slices it was given.
\<close>

datatype event = Info string | Warning string | Call string nat | Playback string "string list"

text \<open>
  What the script reads from outside: whether a glob pattern matches a path, how many
  seconds a shell command takes, the pickle files, the table behind the catalog URL, and
  the two functions of the module \<^verbatim>\<open>list_missing_dates\<close> that the script imports. The
  first two may answer differently each time they are asked: they take the clock of the
  run, which counts the (reader, slice) pairs examined so far.
\<close>

record world =
  glob_glob :: "nat \<Rightarrow> string \<Rightarrow> bool"
  call_seconds :: "nat \<Rightarrow> string \<Rightarrow> nat"
  pickle_files :: "interval files"
  read_csv :: dataframe
  get_refdes_list :: "string \<Rightarrow> string list"
  get_missing_data_list :: "string \<Rightarrow> string \<Rightarrow> interval list"

text \<open>
  The state a run threads through its loops: main's local \<^verbatim>\<open>previous_ingests\<close> (a
  dict is \<open>Some\<close> of it, as for the result of \<open>load_previous_ingests\<close>), the clock,
  and the trace.
\<close>

record run =
  ingests :: "interval ledger option"
  clock :: nat
  trace :: "event list"

text \<open>
  \<^verbatim>\<open>
  def timeout_handler(signum, frame):
      raise TimeoutException
  \<close>
  A signal handler is a function of the signal number; its value is the exception it
  raises, \<open>None\<close> when it returns.
\<close>

definition timeout_handler :: "nat \<Rightarrow> error option" where
  "timeout_handler signum = Some TimeoutException"

definition SIGALRM :: nat where
  "SIGALRM = 14"

text \<open>
  While \<open>playback\<close> runs, the state of the process has two more parts, those that the
  module \<^verbatim>\<open>signal\<close> acts on: the alarm that is pending, as the seconds left until
  SIGALRM is delivered (\<open>None\<close> when no alarm is pending), and the handler installed for
  SIGALRM (\<open>None\<close> for the default action of the signal, which ends the process).
\<close>

record process = run +
  alarm :: "nat option"
  sigalrm :: "(nat \<Rightarrow> error option) option"

text \<open>
  A \<^verbatim>\<open>for\<close> loop whose body can raise: the body is run on each element in turn, and
  the first exception ends the loop with the state as it stands.
\<close>

fun for_loop :: "('a \<Rightarrow> 's \<Rightarrow> 's \<times> error option) \<Rightarrow> 'a list \<Rightarrow> 's \<Rightarrow> 's \<times> error option" where
  "for_loop body [] st = (st, None)"
| "for_loop body (x # xs) st =
     (case body x st of
        (st', Some e) \<Rightarrow> (st', Some e)
      | (st', None) \<Rightarrow> for_loop body xs st')"

section \<open>The replay executor: \<open>playback\<close>\<close>

text \<open>
  \<^verbatim>\<open>str.split('-')\<close>, a subscript that raises IndexError out of range,
  \<^verbatim>\<open>str.lower()\<close> on ASCII, \<^verbatim>\<open>sep.join(list)\<close>, and the same join on a list that may
  hold NaN (a float), which raises TypeError.
\<close>

fun str_split :: "char \<Rightarrow> string \<Rightarrow> string list" where
  "str_split sep [] = [[]]"
| "str_split sep (c # s) =
     (if c = sep then [] # str_split sep s
      else (case str_split sep s of
              [] \<Rightarrow> [[c]]
            | part # parts \<Rightarrow> (c # part) # parts))"

definition item :: "'a list \<Rightarrow> nat \<Rightarrow> error + 'a" where
  "item xs i = (if i < length xs then Inr (xs ! i) else Inl IndexError)"

definition lower_char :: "char \<Rightarrow> char" where
  "lower_char c =
     (case map_of (zip ''ABCDEFGHIJKLMNOPQRSTUVWXYZ'' ''abcdefghijklmnopqrstuvwxyz'') c of
        Some l \<Rightarrow> l
      | None \<Rightarrow> c)"

definition str_lower :: "string \<Rightarrow> string" where
  "str_lower s = map lower_char s"

fun str_join :: "string \<Rightarrow> string list \<Rightarrow> string" where
  "str_join sep [] = []"
| "str_join sep [x] = x"
| "str_join sep (x # y # ys) = x @ sep @ str_join sep (y # ys)"

fun the_str :: "cell \<Rightarrow> string" where
  "the_str (Str s) = s"
| "the_str NaN = []"

definition join_cells :: "string \<Rightarrow> cell list \<Rightarrow> error + string" where
  "join_cells sep cells =
     (if NaN \<in> set cells then Inl TypeError else Inr (str_join sep (map the_str cells)))"

text \<open>
  \<^verbatim>\<open>signal.signal(signal.SIGALRM, handler)\<close> installs the handler;
  \<^verbatim>\<open>signal.alarm(seconds)\<close> replaces the pending alarm by one that is due in
  \<open>seconds\<close> seconds, and \<^verbatim>\<open>signal.alarm(0)\<close> cancels the pending alarm;
  \<^verbatim>\<open>logging.info\<close> and \<^verbatim>\<open>logging.warning\<close> write a line.
\<close>

definition signal_signal :: "(nat \<Rightarrow> error option) \<Rightarrow> process \<Rightarrow> process" where
  "signal_signal handler p = p\<lparr>sigalrm := Some handler\<rparr>"

definition signal_alarm :: "nat \<Rightarrow> process \<Rightarrow> process" where
  "signal_alarm seconds p = p\<lparr>alarm := (if seconds = 0 then None else Some seconds)\<rparr>"

definition logging_info :: "string \<Rightarrow> process \<Rightarrow> process" where
  "logging_info message p = p\<lparr>trace := trace p @ [Info message]\<rparr>"

definition logging_warning :: "string \<Rightarrow> process \<Rightarrow> process" where
  "logging_warning message p = p\<lparr>trace := trace p @ [Warning message]\<rparr>"

text \<open>
  \<^verbatim>\<open>call(playback_command, shell=True)\<close> starts the command and waits until it has
  ended, which takes the seconds the world says. When no alarm is pending, or the command
  ends before the alarm is due, \<^verbatim>\<open>call\<close> returns after these seconds. Otherwise
  SIGALRM is delivered while \<^verbatim>\<open>call\<close> waits, after the seconds that were left on the
  alarm: with no handler installed the process is ended; an installed handler is run,
  and the exception it raises leaves \<^verbatim>\<open>call\<close> (the command itself is not stopped);
  when the handler returns, \<^verbatim>\<open>call\<close> goes on waiting for the command. The event
  recorded is the command with the seconds the script has waited for it.
\<close>

definition call :: "world \<Rightarrow> string \<Rightarrow> process \<Rightarrow> process \<times> error option" where
  "call w command p =
     (let needed = call_seconds w (clock p) command in
      case alarm p of
        None \<Rightarrow> (p\<lparr>trace := trace p @ [Call command needed]\<rparr>, None)
      | Some left \<Rightarrow>
          if needed < left
          then (p\<lparr>trace := trace p @ [Call command needed], alarm := Some (left - needed)\<rparr>,
                None)
          else
            (case sigalrm p of
               None \<Rightarrow> (p\<lparr>trace := trace p @ [Call command left], alarm := None\<rparr>, Some Killed)
             | Some handler \<Rightarrow>
                 (case handler SIGALRM of
                    Some raised \<Rightarrow>
                      (p\<lparr>trace := trace p @ [Call command left], alarm := None\<rparr>, Some raised)
                  | None \<Rightarrow>
                      (p\<lparr>trace := trace p @ [Call command needed], alarm := None\<rparr>, None))))"

text \<open>
  The body of the inner loop, for one reader type and one time slice:
  \<^verbatim>\<open>
  directory = '/'.join([main_directory, node, instrument])
  directory += '*'.join(['', date, ''])
  if glob.glob(directory):
      playback_command = ' '.join(['playback', reader, driver, refdes, event_url,
                                   particle_url, directory])
      logging.info("%s", playback_command)
      signal.alarm(90)
      try:
          call(playback_command, shell=True)
      except TimeoutException:
          logging.warning('%s Took more than 90 seconds. Timing out this ingestion.',
                          playback_command)
          continue
      else:
          signal.alarm(0)
  \<close>
  The \<^verbatim>\<open>except\<close> clause catches TimeoutException and nothing else: any other exception
  that leaves \<^verbatim>\<open>call\<close> leaves the body and the loops. The clock of the run advances
  when the body is done.
\<close>

definition playback_body ::
  "world \<Rightarrow> string \<Rightarrow> string \<Rightarrow> string \<Rightarrow> cell \<Rightarrow> string \<Rightarrow> string \<Rightarrow> string
    \<Rightarrow> cell \<Rightarrow> string \<Rightarrow> process \<Rightarrow> process \<times> error option" where
  "playback_body w main_directory node instrument driver refdes event_url particle_url
     reader date p =
     (let directory = str_join ''/'' [main_directory, node, instrument]
                      @ str_join ''*'' ['''', date, '''']
      in case
           (if glob_glob w (clock p) directory then
              (case join_cells '' '' [Str ''playback'', reader, driver, Str refdes,
                                      Str event_url, Str particle_url, Str directory] of
                 Inl e \<Rightarrow> (p, Some e)
               | Inr playback_command \<Rightarrow>
                   (case call w playback_command
                           (signal_alarm 90 (logging_info playback_command p)) of
                      (after, Some raised) \<Rightarrow>
                        if raised = TimeoutException
                        then (logging_warning
                                (playback_command
                                 @ '' Took more than 90 seconds. Timing out this ingestion.'')
                                after, None)
                        else (after, Some raised)
                    | (after, None) \<Rightarrow> (signal_alarm 0 after, None)))
            else (p, None)) of
           (done, raised) \<Rightarrow> (done\<lparr>clock := Suc (clock done)\<rparr>, raised))"

text \<open>
  \<^verbatim>\<open>
  def playback(refdes, event_url, particle_url, missing_dates):
      main_directory = '/rsn_cabled/rsn_data/DVT_Data'
      driver = get_driver(refdes)
      reader_list = get_reader_type(refdes)
      node = refdes.split('-')[1].lower()
      instrument = refdes.split('-')[3]
      signal.signal(signal.SIGALRM, timeout_handler)
      for reader in reader_list:
          for date in missing_dates:
              ... (the body above)
  \<close>
  The call itself is the first event of the trace it leaves.
\<close>

definition playback ::
  "world \<Rightarrow> dataframe \<Rightarrow> string \<Rightarrow> string \<Rightarrow> string \<Rightarrow> string list \<Rightarrow> process
    \<Rightarrow> process \<times> error option" where
  "playback w cabled_drivers_raw refdes event_url particle_url missing_dates p =
     (let entered = p\<lparr>trace := trace p @ [Playback refdes missing_dates]\<rparr> in
      case get_driver cabled_drivers_raw refdes of
        Inl e \<Rightarrow> (entered, Some e)
      | Inr driver \<Rightarrow>
          (let reader_list = get_reader_type cabled_drivers_raw refdes in
           case item (str_split CHR ''-'' refdes) 1 of
             Inl e \<Rightarrow> (entered, Some e)
           | Inr part \<Rightarrow>
               (let node = str_lower part in
                case item (str_split CHR ''-'' refdes) 3 of
                  Inl e \<Rightarrow> (entered, Some e)
                | Inr instrument \<Rightarrow>
                    for_loop
                      (\<lambda>reader.
                         for_loop
                           (playback_body w ''/rsn_cabled/rsn_data/DVT_Data'' node instrument
                              driver refdes event_url particle_url reader)
                           missing_dates)
                      reader_list (signal_signal timeout_handler entered))))"

section \<open>The run coordinator: \<open>main\<close>\<close>

text \<open>
  The body of main's inner loop:
  \<^verbatim>\<open>
  if not is_in_previous_ingests(previous_ingests, refdes, missing_date):
      begin, end = missing_date
      dates = date_list(begin, end)
      playback(refdes, event_url, particle_url, dates)
  \<close>
  The condition is evaluated first, and it starts with the global name
  \<^verbatim>\<open>is_in_previous_ingests\<close>. The module binds no such name: the only function so
  called is an attribute of the class \<^verbatim>\<open>PreviousIngests\<close>, of which \<open>main\<close> makes no
  instance. Evaluating the name raises NameError, so the body ends there, with the state
  as it was; the three lines under the \<^verbatim>\<open>if\<close> are never run.
\<close>

definition ingest_missing_date :: "string \<Rightarrow> interval \<Rightarrow> run \<Rightarrow> run \<times> error option" where
  "ingest_missing_date refdes missing_date st = (st, Some NameError)"

text \<open>
  \<^verbatim>\<open>
  for refdes, missing_dates in missing_data_dict.iteritems():
      for missing_date in missing_dates:
          ... (the body above)
  \<close>
  The items of the dict are a list of pairs here; what is proved about the loop holds for
  every order in which \<^verbatim>\<open>iteritems\<close> may yield them.
\<close>

definition ingest_missing :: "(string \<times> interval list) list \<Rightarrow> run \<Rightarrow> run \<times> error option" where
  "ingest_missing missing_data_items st =
     for_loop (\<lambda>(refdes, missing_dates). for_loop (ingest_missing_date refdes) missing_dates)
       missing_data_items st"

text \<open>
  \<^verbatim>\<open>
  for refdes in refdes_list:
      if is_cabled(refdes):
          missing_data_list = list_missing_dates.get_missing_data_list(refdes, server)
          if missing_data_list:
              missing_data_dict[refdes] = missing_data_list
  \<close>
  The dict is kept as an association list in insertion order.
\<close>

fun missing_data :: "world \<Rightarrow> dataframe \<Rightarrow> string \<Rightarrow> string list
    \<Rightarrow> (string \<times> interval list) list \<Rightarrow> (string \<times> interval list) list" where
  "missing_data w cabled_drivers_raw server [] missing_data_dict = missing_data_dict"
| "missing_data w cabled_drivers_raw server (refdes # refdes_list) missing_data_dict =
     (if is_cabled cabled_drivers_raw refdes then
        (let missing_data_list = get_missing_data_list w refdes server
         in if missing_data_list \<noteq> []
            then missing_data w cabled_drivers_raw server refdes_list
                   (AList.update refdes missing_data_list missing_data_dict)
            else missing_data w cabled_drivers_raw server refdes_list missing_data_dict)
      else missing_data w cabled_drivers_raw server refdes_list missing_data_dict)"

text \<open>
  \<^verbatim>\<open>
  def main():
      arg = docopt(__doc__)
      if arg['<event_url>'] and arg['<particle_url>'] and arg['<server>']:
          previous_ingests = {}
          if os.path.isfile('previous_ingest.pickle'):
              previous_ingests = load_previous_ingests()
          Cabled.cabled_drivers_raw = request_cabled_raw()
          event_url = arg['<event_url>']
          particle_url = arg['<particle_url>']
          server = arg['<server>']
          refdes_list = list_missing_dates.get_refdes_list(server)
          missing_data_dict = {}
          ... (the two loops above)
  \<close>
  \<^verbatim>\<open>load_previous_ingests\<close> is no global name of the module either: when the file
  \<^verbatim>\<open>previous_ingest.pickle\<close> exists, the call raises NameError. The result is the
  pickle files as the run leaves them, the final state, and the exception that ended the
  run, if any. No statement of \<open>main\<close> writes a file.
\<close>

definition main ::
  "world \<Rightarrow> string \<Rightarrow> string \<Rightarrow> string \<Rightarrow> interval files \<times> run \<times> error option" where
  "main w event_url particle_url server =
     (let start = \<lparr>ingests = Some Map.empty, clock = 0, trace = []\<rparr> in
      if event_url \<noteq> [] \<and> particle_url \<noteq> [] \<and> server \<noteq> [] then
        if pickle_files w ''previous_ingest.pickle'' \<noteq> None
        then (pickle_files w, start, Some NameError)
        else
          (let cabled_drivers_raw = request_cabled_raw (read_csv w);
               refdes_list = get_refdes_list w server;
               missing_data_dict = missing_data w cabled_drivers_raw server refdes_list []
           in case ingest_missing missing_data_dict start of
                (st, raised) \<Rightarrow> (pickle_files w, st, raised))
      else (pickle_files w, start, None))"

section \<open>Notions used to state the properties of a run\<close>

text \<open>
  What one examined (reader type, slice) pair is to leave in the trace, at a given clock:
  nothing when no path matches the pattern; otherwise the logged command, the command
  started and waited for during its own time or 90 seconds, whichever is less, and, when
  the command takes 90 seconds or more, the warning.
\<close>

definition visit ::
  "world \<Rightarrow> string \<Rightarrow> string \<Rightarrow> string \<Rightarrow> string \<Rightarrow> string \<Rightarrow> string
    \<Rightarrow> nat \<times> cell \<times> string \<Rightarrow> event list" where
  "visit w node instrument driver refdes event_url particle_url pair =
     (case pair of (now, reader, date) \<Rightarrow>
        (let directory = ''/rsn_cabled/rsn_data/DVT_Data/'' @ node @ ''/'' @ instrument
                         @ ''*'' @ date @ ''*'';
             playback_command =
               ''playback '' @ the_str reader @ '' '' @ driver @ '' '' @ refdes @ '' ''
               @ event_url @ '' '' @ particle_url @ '' '' @ directory
         in if glob_glob w now directory
            then [Info playback_command,
                  Call playback_command (min (call_seconds w now playback_command) 90)]
                 @ (if 90 \<le> call_seconds w now playback_command
                    then [Warning (playback_command
                                   @ '' Took more than 90 seconds. Timing out this ingestion.'')]
                    else [])
            else []))"

text \<open>
  A process after \<open>n\<close> more pairs have been examined and have left the given events: an
  alarm that was pending before is no longer pending once an event has been left.
\<close>

definition advance :: "process \<Rightarrow> nat \<Rightarrow> event list \<Rightarrow> process" where
  "advance p n events =
     p\<lparr>clock := clock p + n, trace := trace p @ events,
       alarm := (if events = [] then alarm p else None)\<rparr>"






text \<open>Small tables as \<^verbatim>\<open>read_csv\<close> could return them, used as concrete inputs below.\<close>

definition repeated_type_csv :: dataframe where
  "repeated_type_csv =
     [\<lparr>Reference_Designator = Str ''RS01SLBS-LJ01A-05-HYDLFA'', Type = Str ''x'', Driver = Str ''d''\<rparr>,
      \<lparr>Reference_Designator = Str ''RS01SLBS-LJ01A-05-HYDLFA'', Type = Str ''y'', Driver = Str ''d''\<rparr>,
      \<lparr>Reference_Designator = Str ''RS01SLBS-LJ01A-05-HYDLFA'', Type = Str ''x'', Driver = Str ''d''\<rparr>]"

definition continuation_csv :: dataframe where
  "continuation_csv =
     [\<lparr>Reference_Designator = Str ''A'', Type = Str ''x'', Driver = Str ''d1''\<rparr>,
      \<lparr>Reference_Designator = Str ''B'', Type = Str ''None'', Driver = Str ''d2''\<rparr>]"



text \<open>
  A catalog of one instrument; a world in which every pattern matches and the first command
  takes 120 seconds; the same world with no data files at all; that world reporting one
  missing date; and a process that has just started.
\<close>

definition one_instrument :: dataframe where
  "one_instrument =
     [\<lparr>Reference_Designator = Str ''RS01SLBS-LJ01A-05-HYDLFA'', Type = Str ''x'',
       Driver = Str ''d''\<rparr>]"

definition slow_player :: world where
  "slow_player =
     \<lparr>glob_glob = (\<lambda>now pattern. True),
      call_seconds = (\<lambda>now command. if now = 0 then 120 else 5),
      pickle_files = Map.empty,
      read_csv = one_instrument,
      get_refdes_list = (\<lambda>server. [''RS01SLBS-LJ01A-05-HYDLFA'']),
      get_missing_data_list = (\<lambda>refdes server. [])\<rparr>"

definition no_files :: world where
  "no_files = slow_player\<lparr>glob_glob := (\<lambda>now pattern. False)\<rparr>"


definition fresh_process :: process where
  "fresh_process =
     \<lparr>ingests = Some Map.empty, clock = 0, trace = [], alarm = None, sigalrm = None\<rparr>"

section \<open>The ledger gate\<close>

lemma is_in_previous_ingests_known_key:
  assumes "previous_ingests refdes = Some dates" and "missing_date \<notin> set dates"
  shows "is_in_previous_ingests previous_ingests refdes missing_date =
           Inr (False, previous_ingests(refdes \<mapsto> dates @ [missing_date]))"
    and "is_in_previous_ingests (previous_ingests(refdes \<mapsto> dates @ [missing_date]))
           refdes missing_date =
           Inr (True, previous_ingests(refdes \<mapsto> dates @ [missing_date]))"
    and "count_list (dates @ [missing_date]) missing_date = 1"
  using assms by (simp_all add: is_in_previous_ingests_def count_list_0_iff)

text \<open>
  Claim C2. The gate is asked about a pair that the ledger does not hold. When the ledger
  has an entry for the reference designator the two calls answer as the claim says
  (lemma \<open>is_in_previous_ingests_known_key\<close>: not ingested, then ingested, one record,
  the second call leaving the dict as it is). When the ledger has no entry at all for the
  reference designator, which is the state of every first run, the first call raises
  KeyError instead of answering: the handler whose comment reads "Reference designator is
  not a key in previous_ingests, so still return false" subscripts the missing key again.
\<close>

theorem should_attempt_new_refdes_raises:
  "is_in_previous_ingests (Map.empty :: string ledger)
     ''RS01SLBS-LJ01A-05-HYDLFA'' ''20200101T00'' = Inl KeyError"
  by (simp add: is_in_previous_ingests_def)

text \<open>
  Claim C3. A ledger written by \<open>write_previous_ingests\<close> is not what
  \<open>load_previous_ingests\<close> gives back: the two functions name different files
  (\<^verbatim>\<open>previous_ingests.pickle\<close> is written, \<^verbatim>\<open>previous_ingest.pickle\<close> is read), so
  in a directory that held no pickle file the load raises IOError; and where the file
  that is read does exist, the loaded object is dropped and \<^verbatim>\<open>None\<close> is returned.
\<close>

theorem persist_then_load_loses_ledger:
  "load_previous_ingests
     (write_previous_ingests Map.empty
        [''RS01SLBS-LJ01A-05-HYDLFA'' \<mapsto> [''20200101T00'']]) = Inl IOError
   \<and> load_previous_ingests
     (write_previous_ingests
        [''previous_ingest.pickle'' \<mapsto> [''RS01SLBS-LJ01A-05-HYDLFA'' \<mapsto> [''20200101T00'']]]
        [''RS01SLBS-LJ01A-05-HYDLFA'' \<mapsto> [''20200101T00'']]) = Inr None"
  by (simp add: load_previous_ingests_def write_previous_ingests_def)

section \<open>The catalog\<close>

lemma reader_loop_eq:
  "reader_loop df reader = reader @ map Type (filter (\<lambda>r. Type r \<noteq> Str ''nan'') df)"
  by (induction df arbitrary: reader) simp_all


lemma get_reader_type_append:
  "get_reader_type (xs @ ys) refdes = get_reader_type xs refdes @ get_reader_type ys refdes"
  by (simp add: get_reader_type_def rows_of_def reader_loop_eq)

lemma request_cabled_raw_length: "length (request_cabled_raw csv) = length csv"
  by (simp add: request_cabled_raw_def shift1_def Let_def)

lemma request_cabled_raw_nth:
  assumes "i < length csv"
  shows "request_cabled_raw csv ! i =
           fold_designator (fill_type (csv ! i))
             (if i = 0 then NaN else Reference_Designator (fill_type (csv ! (i - 1))))"
  using assms
  by (cases i) (simp_all add: request_cabled_raw_def shift1_def Let_def)

lemma fill_type_designator: "Reference_Designator (fill_type r) = Reference_Designator r"
  by (simp add: fill_type_def)

lemma continuation_row_loaded:
  assumes "i < length csv" and "Type (csv ! i) = Str ''None''"
    and "Reference_Designator (csv ! i) = Str refdes"
  shows "request_cabled_raw csv ! i =
           (csv ! i)\<lparr>Type := Str refdes,
             Reference_Designator := (if i = 0 then NaN else Reference_Designator (csv ! (i - 1)))\<rparr>"
  using assms
  by (simp add: request_cabled_raw_nth fill_type_designator fold_designator_def fill_type_def)

lemma request_cabled_raw_continuation_csv:
  "request_cabled_raw continuation_csv =
     [\<lparr>Reference_Designator = Str ''A'', Type = Str ''x'', Driver = Str ''d1''\<rparr>,
      \<lparr>Reference_Designator = Str ''A'', Type = Str ''B'', Driver = Str ''d2''\<rparr>]"
  by (simp add: continuation_csv_def request_cabled_raw_def fill_type_def fold_designator_def
      shift1_def)

lemma request_cabled_raw_repeated_type_csv:
  "request_cabled_raw repeated_type_csv = repeated_type_csv"
  by (simp add: repeated_type_csv_def request_cabled_raw_def fill_type_def fold_designator_def
      shift1_def)







lemma reader_types_keep_duplicates:
  "get_reader_type (request_cabled_raw repeated_type_csv) ''RS01SLBS-LJ01A-05-HYDLFA'' =
     [Str ''x'', Str ''y'', Str ''x'']"
  by (simp add: request_cabled_raw_repeated_type_csv)
     (simp add: repeated_type_csv_def get_reader_type_def rows_of_def)

lemma nan_cells:
  "get_reader_type
     [\<lparr>Reference_Designator = Str ''A'', Type = NaN, Driver = Str ''d1''\<rparr>,
      \<lparr>Reference_Designator = Str ''A'', Type = Str ''nan'', Driver = Str ''d2''\<rparr>] ''A'' = [NaN]"
  by (simp add: get_reader_type_def rows_of_def)




text \<open>
  Claim C7, as stated, fails: a row with the empty-type marker \<^verbatim>\<open>'None'\<close> is moved to
  the designator of the row before it, so the entry of its own designator B has no
  reader type at all (B is not even in the catalog any more), and the reader type B is
  found under A.
\<close>

theorem empty_type_row_own_entry_empty:
  "get_reader_type (request_cabled_raw continuation_csv) ''B'' = []
   \<and> \<not> is_cabled (request_cabled_raw continuation_csv) ''B''
   \<and> get_reader_type (request_cabled_raw continuation_csv) ''A'' = [Str ''x'', Str ''B'']"
  by (simp add: request_cabled_raw_continuation_csv get_reader_type_def is_cabled_def
      rows_of_def)

text \<open>
  Claim C7, amended. A source row (not the first) whose Type is the empty marker
  \<^verbatim>\<open>'None'\<close> yields exactly one reader type, the row's own reference designator string,
  and yields it in the entry of the preceding row's reference designator, at the row's
  place in file order; to the entry of its own designator the row adds nothing (unless
  the preceding row has the same designator).
\<close>

theorem empty_type_row_folded_into_previous:
  assumes "i < length csv" and "0 < i" and "Type (csv ! i) = Str ''None''"
    and "Reference_Designator (csv ! i) = Str refdes"
    and "Reference_Designator (csv ! (i - 1)) = Str previous"
    and "refdes \<noteq> ''nan''"
  shows "get_reader_type (request_cabled_raw csv) previous =
           get_reader_type (take i (request_cabled_raw csv)) previous @ [Str refdes]
             @ get_reader_type (drop (Suc i) (request_cabled_raw csv)) previous
       \<and> (previous \<noteq> refdes \<longrightarrow>
           get_reader_type (request_cabled_raw csv) refdes =
             get_reader_type (take i (request_cabled_raw csv)) refdes
               @ get_reader_type (drop (Suc i) (request_cabled_raw csv)) refdes)"
proof -
  let ?cat = "request_cabled_raw csv"
  have len: "i < length ?cat" using assms(1) by (simp add: request_cabled_raw_length)
  have loaded: "?cat ! i = (csv ! i)\<lparr>Type := Str refdes, Reference_Designator := Str previous\<rparr>"
    using continuation_row_loaded [OF assms(1) assms(3) assms(4)] assms(2) assms(5) by simp
  have parts: "?cat = take i ?cat @ [?cat ! i] @ drop (Suc i) ?cat"
    using len by (simp add: id_take_nth_drop)
  have one: "get_reader_type [?cat ! i] previous = [Str refdes]"
    using assms(6) by (simp add: loaded get_reader_type_def rows_of_def)
  have "get_reader_type ?cat previous =
          get_reader_type (take i ?cat @ [?cat ! i] @ drop (Suc i) ?cat) previous"
    using parts by simp
  then have first: "get_reader_type ?cat previous =
           get_reader_type (take i ?cat) previous @ [Str refdes]
             @ get_reader_type (drop (Suc i) ?cat) previous"
    by (simp only: get_reader_type_append one)
  have second: "get_reader_type ?cat refdes =
           get_reader_type (take i ?cat) refdes @ get_reader_type (drop (Suc i) ?cat) refdes"
    if ne: "previous \<noteq> refdes"
  proof -
    have none: "get_reader_type [?cat ! i] refdes = []"
      using ne by (simp add: loaded get_reader_type_def rows_of_def)
    have "get_reader_type ?cat refdes =
            get_reader_type (take i ?cat @ [?cat ! i] @ drop (Suc i) ?cat) refdes"
      using parts by simp
    then show ?thesis by (simp only: get_reader_type_append none append_Nil)
  qed
  show ?thesis using first second by blast
qed

theorem empty_type_row_folded_into_previous_witness:
  "get_reader_type (request_cabled_raw continuation_csv) ''A'' =
     get_reader_type (take 1 (request_cabled_raw continuation_csv)) ''A'' @ [Str ''B'']
       @ get_reader_type (drop 2 (request_cabled_raw continuation_csv)) ''A''
   \<and> get_reader_type (request_cabled_raw continuation_csv) ''B'' =
       get_reader_type (take 1 (request_cabled_raw continuation_csv)) ''B''
         @ get_reader_type (drop 2 (request_cabled_raw continuation_csv)) ''B''"
  using empty_type_row_folded_into_previous [of 1 continuation_csv "''B''" "''A''"]
  by (simp add: continuation_csv_def numeral_2_eq_2)

text \<open>
  Claim C10. On load, a source row whose Type holds \<^verbatim>\<open>'None'\<close> gets its own reference
  designator as Type, and then the reference designator of the row immediately before it
  (the designator that row had in the source) as its Reference Designator; its Driver
  stays. The first row of the table has no row before it: \<^verbatim>\<open>shift(1)\<close> gives it NaN.
  The row therefore stands under the preceding row's instrument, with its own designator
  as a further reader type there, and no longer under its own.
\<close>

theorem continuation_row_rewrite:
  assumes "i < length csv" and "Type (csv ! i) = Str ''None''"
    and "Reference_Designator (csv ! i) = Str refdes"
  shows "Type (request_cabled_raw csv ! i) = Str refdes
       \<and> Reference_Designator (request_cabled_raw csv ! i) =
           (if i = 0 then NaN else Reference_Designator (csv ! (i - 1)))
       \<and> Driver (request_cabled_raw csv ! i) = Driver (csv ! i)"
  using continuation_row_loaded [OF assms] by simp

theorem continuation_row_rewrite_witness:
  "Type (request_cabled_raw continuation_csv ! 1) = Str ''B''
   \<and> Reference_Designator (request_cabled_raw continuation_csv ! 1) = Str ''A''
   \<and> Driver (request_cabled_raw continuation_csv ! 1) = Str ''d2''"
  using continuation_row_rewrite [of 1 continuation_csv "''B''"]
  by (simp add: continuation_csv_def)

section \<open>Strings and timestamps\<close>

lemma of_char_digit_char: "of_char (digit_char d) = (48 + d mod 10 :: nat)"
proof -
  have "(d::nat) mod 10 < 10" by simp
  then consider "d mod 10 = 0" | "d mod 10 = 1" | "d mod 10 = 2" | "d mod 10 = 3"
    | "d mod 10 = 4" | "d mod 10 = 5" | "d mod 10 = 6" | "d mod 10 = 7" | "d mod 10 = 8"
    | "d mod 10 = 9" by atomize_elim arith
  then show ?thesis by cases (simp_all add: digit_char_def)
qed

lemma digit_val_digit_char: "digit_val (digit_char a) = a mod 10"
  by (simp add: digit_val_def of_char_digit_char)

lemma is_digit_digit_char: "is_digit (digit_char a)"
  by (simp add: is_digit_def less_eq_char_def of_char_digit_char)

lemma not_space_digit_char: "\<not> is_space (digit_char a)"
proof
  assume "is_space (digit_char a)"
  then have "(of_char (digit_char a) :: nat) \<in> {32, 9, 10, 11, 12, 13}"
    unfolding is_space_def by auto
  then show False by (simp add: of_char_digit_char)
qed

lemma int_of_pad2: "n < 100 \<Longrightarrow> int_of (pad2 n) = n"
  by (simp add: int_of_def pad2_def not_space_digit_char digit_val_digit_char)

lemma int_of_pad4:
  assumes "n < 10000"
  shows "int_of (pad4 n) = n"
proof -
  have h: "n div 100 < 100" using assms by simp
  have "int_of (pad4 n) =
          100 * (10 * (n div 100 div 10) + n div 100 mod 10)
          + (10 * (n mod 100 div 10) + n mod 100 mod 10)"
    using h by (simp add: int_of_def pad4_def pad2_def not_space_digit_char digit_val_digit_char)
  then show ?thesis by simp
qed

lemma digit_char_less: "(digit_char a < digit_char b) = (a mod 10 < b mod 10)"
  by (simp add: less_char_def of_char_digit_char)

lemma digit_char_eq: "(digit_char a = digit_char b) = (a mod 10 = b mod 10)"
proof
  assume "digit_char a = digit_char b"
  then have "(of_char (digit_char a) :: nat) = of_char (digit_char b)" by simp
  then show "a mod 10 = b mod 10" by (simp add: of_char_digit_char)
next
  assume "a mod 10 = b mod 10"
  then show "digit_char a = digit_char b" by (simp add: digit_char_def)
qed

lemma divmod_less:
  "((m::nat) < n) = (m div k < n div k \<or> m div k = n div k \<and> m mod k < n mod k)"
proof (cases "m div k = n div k")
  case True
  have "(k * (n div k) + m mod k < k * (n div k) + n mod k) = (m mod k < n mod k)"
    by (simp only: nat_add_left_cancel_less)
  moreover have "k * (n div k) + m mod k = m" using True by (metis mult_div_mod_eq)
  moreover have "k * (n div k) + n mod k = n" by simp
  ultimately have "(m < n) = (m mod k < n mod k)" by (simp only:)
  with True show ?thesis by simp
next
  case False
  then consider "m div k < n div k" | "n div k < m div k" by linarith
  then show ?thesis
  proof cases
    case 1
    then have "m < n" by (metis div_le_mono not_le)
    with 1 show ?thesis by simp
  next
    case 2
    then have "n < m" by (metis div_le_mono not_le)
    with 2 show ?thesis by simp
  qed
qed

lemma divmod_eq:
  "((m::nat) = n) = (m div k = n div k \<and> m mod k = n mod k)"
  by (metis div_mult_mod_eq)

lemma pad2_append_less:
  assumes "m < 100" and "n < 100"
  shows "(pad2 m @ x < pad2 n @ y) = (m < n \<or> m = n \<and> x < y)"
proof -
  have a: "m div 10 mod 10 = m div 10" "n div 10 mod 10 = n div 10"
    using assms by simp_all
  have "(pad2 m @ x < pad2 n @ y) =
          (m div 10 < n div 10 \<or> m div 10 = n div 10 \<and>
             (m mod 10 < n mod 10 \<or> m mod 10 = n mod 10 \<and> x < y))"
    by (simp add: pad2_def digit_char_less digit_char_eq a)
  then show ?thesis
    using divmod_less [of m n 10] divmod_eq [of m n 10] by blast
qed

lemma pad2_less:
  assumes "m < 100" and "n < 100"
  shows "(pad2 m < pad2 n) = (m < n)"
  using pad2_append_less [OF assms, of "[]" "[]"] by simp

lemma pad4_append_less:
  assumes "m < 10000" and "n < 10000"
  shows "(pad4 m @ x < pad4 n @ y) = (m < n \<or> m = n \<and> x < y)"
proof -
  have b: "m div 100 < 100" "n div 100 < 100" "m mod 100 < 100" "n mod 100 < 100"
    using assms by simp_all
  have "(pad4 m @ x < pad4 n @ y) =
          (m div 100 < n div 100 \<or> m div 100 = n div 100 \<and>
             (m mod 100 < n mod 100 \<or> m mod 100 = n mod 100 \<and> x < y))"
    by (simp add: pad4_def pad2_append_less b)
  then show ?thesis
    using divmod_less [of m n 100] divmod_eq [of m n 100] by blast
qed

lemma lex_step: "((a::nat, x::'b::order) < (b, y)) = (a < b \<or> a = b \<and> x < y)"
  by auto

lemma isoformat_less:
  assumes "in_range t" and "in_range u"
  shows "(isoformat t < isoformat u) = (dt_key t < dt_key u)"
proof -
  have dt: "day t \<le> 31" "day u \<le> 31"
    using assms days_in_month_le [of "year t" "month t"] days_in_month_le [of "year u" "month u"]
    by (simp_all add: in_range_def)
  have b: "year t < 10000" "year u < 10000" "month t < 100" "month u < 100"
    "day t < 100" "day u < 100" "hour t < 100" "hour u < 100" "minute t < 100"
    "minute u < 100" "second t < 100" "second u < 100"
    using assms dt by (simp_all add: in_range_def)
  have y: "(pad4 (year t) @ x < pad4 (year u) @ y) = (year t < year u \<or> year t = year u \<and> x < y)"
    for x y by (rule pad4_append_less) (simp_all add: b)
  have m: "(pad2 (month t) @ x < pad2 (month u) @ y) = (month t < month u \<or> month t = month u \<and> x < y)"
    for x y by (rule pad2_append_less) (simp_all add: b)
  have d: "(pad2 (day t) @ x < pad2 (day u) @ y) = (day t < day u \<or> day t = day u \<and> x < y)"
    for x y by (rule pad2_append_less) (simp_all add: b)
  have h: "(pad2 (hour t) @ x < pad2 (hour u) @ y) = (hour t < hour u \<or> hour t = hour u \<and> x < y)"
    for x y by (rule pad2_append_less) (simp_all add: b)
  have mi: "(pad2 (minute t) @ x < pad2 (minute u) @ y) = (minute t < minute u \<or> minute t = minute u \<and> x < y)"
    for x y by (rule pad2_append_less) (simp_all add: b)
  have se: "(pad2 (second t) < pad2 (second u)) = (second t < second u)"
    by (rule pad2_less) (simp_all add: b)
  have sep: "(c # x < c # y) = (x < y)" for c :: char and x y by simp
  show ?thesis
    unfolding isoformat_def dt_key_def
    by (simp only: y m d h mi se sep append_Cons append_Nil lex_step)
qed

lemma re_match_directive:
  assumes "ways (Directive alternatives) (g @ r) = (Some g, r) # others"
    and "re_match ps r = Some (groups, unconverted)"
  shows "re_match (Directive alternatives # ps) (g @ r) = Some (g # groups, unconverted)"
  using assms by (simp del: ways.simps)

lemma re_match_literal: "re_match (Literal c # ps) (c # r) = re_match ps r"
  by (simp split: option.splits)

lemma re_match_white_space:
  "re_match (White_space # ps) (CHR '' '' # digit_char a # r) = re_match ps (digit_char a # r)"
proof -
  have "is_space CHR '' ''" by (simp add: is_space_def)
  then have "takeWhile is_space (CHR '' '' # digit_char a # r) = [CHR '' '']"
    by (simp add: not_space_digit_char)
  then have "ways White_space (CHR '' '' # digit_char a # r) = [(None, digit_char a # r)]"
    by simp
  then show ?thesis by (simp del: ways.simps split: option.splits)
qed

lemma two_digits:
  assumes "n < 100"
  obtains q r where "n = 10 * q + r" and "q < 10" and "r < 10"
    and "pad2 n = [digit_char q, digit_char r]"
proof
  show "n = 10 * (n div 10) + n mod 10" by simp
  show "n div 10 < 10" using assms by simp
  show "n mod 10 < 10" by simp
  have "digit_char n = digit_char (n mod 10)" by (simp add: digit_char_def)
  then show "pad2 n = [digit_char (n div 10), digit_char (n mod 10)]"
    by (simp add: pad2_def)
qed

lemma ways_year:
  "ways (Directive [[Digit 0 9, Digit 0 9, Digit 0 9, Digit 0 9]]) (pad4 Y @ r) =
     [(Some (pad4 Y), r)]"
proof -
  have "a mod 10 \<le> 9" for a :: nat
    using mod_less_divisor [of 10 a] by linarith
  then show ?thesis
    by (simp add: pad4_def pad2_def alternative_matches_def is_digit_digit_char digit_val_digit_char)
qed

lemma ways_month:
  assumes "1 \<le> m" and "m \<le> 12"
  shows "\<exists>others. ways (Directive [[Digit 1 1, Digit 0 2], [Digit 0 0, Digit 1 9], [Digit 1 9]])
                  (pad2 m @ r) = (Some (pad2 m), r) # others"
proof -
  obtain q d where n: "m = 10 * q + d" "q < 10" "d < 10" "pad2 m = [digit_char q, digit_char d]"
    using two_digits [of m] assms by auto
  then consider "q = 0" "1 \<le> d" | "q = 1" "d \<le> 2" using assms by atomize_elim arith
  then show ?thesis
    using n(3) by cases (simp_all add: n(4) alternative_matches_def is_digit_digit_char digit_val_digit_char)
qed

lemma ways_day:
  assumes "1 \<le> n" and "n \<le> 31"
  shows "\<exists>others. ways (Directive [[Digit 3 3, Digit 0 1], [Digit 1 2, Digit 0 9],
                   [Digit 0 0, Digit 1 9], [Digit 1 9], [Exactly CHR '' '', Digit 1 9]])
                  (pad2 n @ r) = (Some (pad2 n), r) # others"
proof -
  obtain q d where n: "n = 10 * q + d" "q < 10" "d < 10" "pad2 n = [digit_char q, digit_char d]"
    using two_digits [of n] assms by auto
  then consider "q = 0" "1 \<le> d" | "q = 1" | "q = 2" | "q = 3" "d \<le> 1"
    using assms by atomize_elim arith
  then show ?thesis
    using n(3) by cases (simp_all add: n(4) alternative_matches_def is_digit_digit_char digit_val_digit_char)
qed

lemma ways_hour:
  assumes "n \<le> 23"
  shows "\<exists>others. ways (Directive [[Digit 2 2, Digit 0 3], [Digit 0 1, Digit 0 9], [Digit 0 9]])
                  (pad2 n @ r) = (Some (pad2 n), r) # others"
proof -
  obtain q d where n: "n = 10 * q + d" "q < 10" "d < 10" "pad2 n = [digit_char q, digit_char d]"
    using two_digits [of n] assms by auto
  then consider "q = 0" | "q = 1" | "q = 2" "d \<le> 3"
    using assms by atomize_elim arith
  then show ?thesis
    using n(3) by cases (simp_all add: n(4) alternative_matches_def is_digit_digit_char digit_val_digit_char)
qed

lemma ways_minute:
  assumes "n \<le> 59"
  shows "\<exists>others. ways (Directive [[Digit 0 5, Digit 0 9], [Digit 0 9]])
                  (pad2 n @ r) = (Some (pad2 n), r) # others"
proof -
  obtain q d where n: "n = 10 * q + d" "q < 10" "d < 10" "pad2 n = [digit_char q, digit_char d]"
    using two_digits [of n] assms by auto
  then have "q \<le> 5" using assms by arith
  then show ?thesis
    using n(2) n(3) by (simp add: n(4) alternative_matches_def is_digit_digit_char digit_val_digit_char)
qed

lemma ways_second:
  assumes "n \<le> 59"
  shows "\<exists>others. ways (Directive [[Digit 6 6, Digit 0 1], [Digit 0 5, Digit 0 9], [Digit 0 9]])
                  (pad2 n @ r) = (Some (pad2 n), r) # others"
proof -
  obtain q d where n: "n = 10 * q + d" "q < 10" "d < 10" "pad2 n = [digit_char q, digit_char d]"
    using two_digits [of n] assms by auto
  then have "q \<le> 5" using assms by arith
  then show ?thesis
    using n(2) n(3) by (simp add: n(4) alternative_matches_def is_digit_digit_char digit_val_digit_char)
qed

lemma pad2_Cons: "pad2 n @ r = digit_char (n div 10) # digit_char n # r"
  by (simp add: pad2_def)

lemma re_match_isoformat:
  assumes "in_range t"
  shows "re_match format_regex (isoformat t) =
           Some ([pad4 (year t), pad2 (month t), pad2 (day t), pad2 (hour t),
                  pad2 (minute t), pad2 (second t)], [])"
proof -
  have d31: "day t \<le> 31"
    using assms days_in_month_le [of "year t" "month t"] by (simp add: in_range_def)
  have rng: "1 \<le> month t" "month t \<le> 12" "1 \<le> day t" "hour t \<le> 23" "minute t \<le> 59"
    "second t \<le> 59"
    using assms by (simp_all add: in_range_def)
  obtain o6 where w6: "ways (Directive [[Digit 6 6, Digit 0 1], [Digit 0 5, Digit 0 9], [Digit 0 9]])
      (pad2 (second t) @ []) = (Some (pad2 (second t)), []) # o6"
    using ways_second [OF rng(6), of "[]"] by blast
  obtain o5 where w5: "ways (Directive [[Digit 0 5, Digit 0 9], [Digit 0 9]])
      (pad2 (minute t) @ CHR '':'' # pad2 (second t)) = (Some (pad2 (minute t)), CHR '':'' # pad2 (second t)) # o5"
    using ways_minute [OF rng(5)] by blast
  obtain o4 where w4: "ways (Directive [[Digit 2 2, Digit 0 3], [Digit 0 1, Digit 0 9], [Digit 0 9]])
      (pad2 (hour t) @ CHR '':'' # pad2 (minute t) @ CHR '':'' # pad2 (second t)) =
      (Some (pad2 (hour t)), CHR '':'' # pad2 (minute t) @ CHR '':'' # pad2 (second t)) # o4"
    using ways_hour [OF rng(4)] by blast
  obtain o3 where w3: "ways (Directive [[Digit 3 3, Digit 0 1], [Digit 1 2, Digit 0 9], [Digit 0 0, Digit 1 9],
                 [Digit 1 9], [Exactly CHR '' '', Digit 1 9]])
      (pad2 (day t) @ CHR '' '' # pad2 (hour t) @ CHR '':'' # pad2 (minute t) @ CHR '':'' # pad2 (second t)) =
      (Some (pad2 (day t)), CHR '' '' # pad2 (hour t) @ CHR '':'' # pad2 (minute t) @ CHR '':'' # pad2 (second t)) # o3"
    using ways_day [OF rng(3) d31] by blast
  obtain o2 where w2: "ways (Directive [[Digit 1 1, Digit 0 2], [Digit 0 0, Digit 1 9], [Digit 1 9]])
      (pad2 (month t) @ CHR ''-'' # pad2 (day t) @ CHR '' '' # pad2 (hour t) @ CHR '':'' # pad2 (minute t) @ CHR '':'' # pad2 (second t)) =
      (Some (pad2 (month t)), CHR ''-'' # pad2 (day t) @ CHR '' '' # pad2 (hour t) @ CHR '':'' # pad2 (minute t) @ CHR '':'' # pad2 (second t)) # o2"
    using ways_month [OF rng(1) rng(2)] by blast
  note w1 = ways_year [of "year t" "CHR ''-'' # pad2 (month t) @ CHR ''-'' # pad2 (day t) @ CHR '' '' # pad2 (hour t) @ CHR '':'' # pad2 (minute t) @ CHR '':'' # pad2 (second t)"]
  have r6: "re_match [Directive [[Digit 6 6, Digit 0 1], [Digit 0 5, Digit 0 9], [Digit 0 9]]]
              (pad2 (second t) @ []) = Some ([pad2 (second t)], [])"
    by (rule re_match_directive [OF w6]) simp
  have r5: "re_match [Directive [[Digit 0 5, Digit 0 9], [Digit 0 9]], Literal CHR '':'',
              Directive [[Digit 6 6, Digit 0 1], [Digit 0 5, Digit 0 9], [Digit 0 9]]]
              (pad2 (minute t) @ CHR '':'' # pad2 (second t)) =
            Some ([pad2 (minute t), pad2 (second t)], [])"
    apply (rule re_match_directive [OF w5])
    apply (subst re_match_literal)
    using r6 by simp
  have r4: "re_match [Directive [[Digit 2 2, Digit 0 3], [Digit 0 1, Digit 0 9], [Digit 0 9]],
              Literal CHR '':'',
              Directive [[Digit 0 5, Digit 0 9], [Digit 0 9]], Literal CHR '':'',
              Directive [[Digit 6 6, Digit 0 1], [Digit 0 5, Digit 0 9], [Digit 0 9]]]
              (pad2 (hour t) @ CHR '':'' # pad2 (minute t) @ CHR '':'' # pad2 (second t)) =
            Some ([pad2 (hour t), pad2 (minute t), pad2 (second t)], [])"
    apply (rule re_match_directive [OF w4])
    apply (subst re_match_literal)
    by (rule r5)
  have r3: "re_match [Directive [[Digit 3 3, Digit 0 1], [Digit 1 2, Digit 0 9], [Digit 0 0, Digit 1 9],
                 [Digit 1 9], [Exactly CHR '' '', Digit 1 9]],
              White_space,
              Directive [[Digit 2 2, Digit 0 3], [Digit 0 1, Digit 0 9], [Digit 0 9]],
              Literal CHR '':'',
              Directive [[Digit 0 5, Digit 0 9], [Digit 0 9]], Literal CHR '':'',
              Directive [[Digit 6 6, Digit 0 1], [Digit 0 5, Digit 0 9], [Digit 0 9]]]
              (pad2 (day t) @ CHR '' '' # pad2 (hour t) @ CHR '':'' # pad2 (minute t) @ CHR '':'' # pad2 (second t)) =
            Some ([pad2 (day t), pad2 (hour t), pad2 (minute t), pad2 (second t)], [])"
    apply (rule re_match_directive [OF w3])
    apply (subst pad2_Cons)
    apply (subst re_match_white_space)
    apply (subst pad2_Cons [symmetric])
    by (rule r4)
  have r2: "re_match [Directive [[Digit 1 1, Digit 0 2], [Digit 0 0, Digit 1 9], [Digit 1 9]],
              Literal CHR ''-'',
              Directive [[Digit 3 3, Digit 0 1], [Digit 1 2, Digit 0 9], [Digit 0 0, Digit 1 9],
                 [Digit 1 9], [Exactly CHR '' '', Digit 1 9]],
              White_space,
              Directive [[Digit 2 2, Digit 0 3], [Digit 0 1, Digit 0 9], [Digit 0 9]],
              Literal CHR '':'',
              Directive [[Digit 0 5, Digit 0 9], [Digit 0 9]], Literal CHR '':'',
              Directive [[Digit 6 6, Digit 0 1], [Digit 0 5, Digit 0 9], [Digit 0 9]]]
              (pad2 (month t) @ CHR ''-'' # pad2 (day t) @ CHR '' '' # pad2 (hour t) @ CHR '':'' # pad2 (minute t) @ CHR '':'' # pad2 (second t)) =
            Some ([pad2 (month t), pad2 (day t), pad2 (hour t), pad2 (minute t), pad2 (second t)], [])"
    apply (rule re_match_directive [OF w2])
    apply (subst re_match_literal)
    by (rule r3)
  have r1: "re_match format_regex
              (pad4 (year t) @ CHR ''-'' # pad2 (month t) @ CHR ''-'' # pad2 (day t) @ CHR '' '' # pad2 (hour t) @ CHR '':'' # pad2 (minute t) @ CHR '':'' # pad2 (second t)) =
            Some ([pad4 (year t), pad2 (month t), pad2 (day t), pad2 (hour t), pad2 (minute t), pad2 (second t)], [])"
    unfolding format_regex_def
    apply (rule re_match_directive [OF w1])
    apply (subst re_match_literal)
    by (rule r2)
  then show ?thesis by (simp add: isoformat_def)
qed

lemma strptime_isoformat:
  assumes "in_range t"
  shows "strptime (isoformat t) = Inr t"
proof -
  have "year t < 10000" "month t < 100" "day t < 100" "hour t < 100" "minute t < 100"
    "second t < 100"
    using assms days_in_month_le [of "year t" "month t"] by (auto simp: in_range_def)
  then show ?thesis
    using assms
    by (simp add: strptime_def re_match_isoformat [OF assms] int_of_pad2 int_of_pad4 in_range_def)
qed

lemma plus_hour_fields:
  assumes "plus_hour t = Inr u"
  shows "minute u = minute t" and "second u = second t" and "year t \<le> year u"
  using assms by (auto simp: plus_hour_def split: if_splits)

lemma hour_key_mono: "dt_key a \<le> dt_key b \<Longrightarrow> hour_key a \<le> hour_key b"
  by (auto simp: dt_key_def hour_key_def)

lemma in_range_hour_key: "in_range t \<Longrightarrow> hour_key t \<le> last_hour"
  using days_in_month_le [of "year t" "month t"]
  by (auto simp: in_range_def hour_key_def last_hour_def)

lemma before_last_hour:
  assumes "dt_less t e" and "hour_key e \<le> last_hour" and "steps_in_range t e"
  shows "hour_key t < last_hour"
proof -
  have le: "hour_key t \<le> hour_key e"
    using assms(1) by (simp add: dt_less_def hour_key_mono less_imp_le)
  show ?thesis
  proof (cases "hour_key e < last_hour")
    case True
    with le show ?thesis by simp
  next
    case False
    then have ms: "(minute e, second e) \<le> (minute t, second t)"
      using assms(3) by (simp add: steps_in_range_def)
    have "hour_key t \<noteq> hour_key e"
    proof
      assume "hour_key t = hour_key e"
      then have "(minute t, second t) < (minute e, second e)"
        using assms(1) by (auto simp: dt_less_def dt_key_def hour_key_def)
      with leD [OF ms] show False by blast
    qed
    with le have "hour_key t < hour_key e" by simp
    with assms(2) show ?thesis by simp
  qed
qed

lemma plus_hour_succeeds:
  assumes "hour_key t < last_hour"
  shows "\<exists>u. plus_hour t = Inr u"
proof -
  have "days_in_month 9999 12 = 31" by (simp add: days_in_month_def)
  then show ?thesis
    using assms by (auto simp: plus_hour_def hour_key_def last_hour_def)
qed

lemma date_loop_shape:
  assumes "1900 \<le> year t" and "hour_key e \<le> last_hour" and "steps_in_range t e"
  shows "\<exists>us. date_loop t e acc = Inr (acc @ map hour_label us) \<and> hourly t us
           \<and> \<not> dt_less (last (t # us)) e \<and> (\<not> dt_less t e \<longrightarrow> us = [])"
  using assms
proof (induction t e acc rule: date_loop.induct)
  case (1 t e acc)
  show ?case
  proof (cases "dt_less t e")
    case False
    then have "date_loop t e acc = Inr (acc @ map hour_label [])"
      by (simp add: date_loop.simps [of t e acc])
    with False show ?thesis by (intro exI [of _ "[]"]) simp
  next
    case True
    obtain u where u: "plus_hour t = Inr u"
      using plus_hour_succeeds before_last_hour [OF True "1.prems"(2) "1.prems"(3)] by blast
    have yr: "1900 \<le> year u" using plus_hour_fields(3) [OF u] "1.prems"(1) by simp
    then have lab: "strftime u = Inr (hour_label u)" by (simp add: strftime_def)
    have rng: "steps_in_range u e"
      using "1.prems"(3) plus_hour_fields(1,2) [OF u] by (simp add: steps_in_range_def)
    obtain us where us: "date_loop u e (acc @ [hour_label u]) =
          Inr ((acc @ [hour_label u]) @ map hour_label us)" "hourly u us"
        "\<not> dt_less (last (u # us)) e"
      using "1.IH" [OF True u lab yr "1.prems"(2) rng] by blast
    have "date_loop t e acc = Inr (acc @ map hour_label (u # us))"
      using True u lab us(1) by (simp add: date_loop.simps [of t e acc])
    moreover have "hourly t (u # us)" using u us(2) by simp
    moreover have "\<not> dt_less (last (t # u # us)) e" using us(3) by simp
    ultimately show ?thesis using True by blast
  qed
qed

lemma hourly_nth:
  assumes "hourly t us" and "Suc i < length (t # us)"
  shows "plus_hour ((t # us) ! i) = Inr ((t # us) ! Suc i)"
  using assms
proof (induction us arbitrary: t i)
  case Nil
  then show ?case by simp
next
  case (Cons u us)
  show ?case
  proof (cases i)
    case 0
    with Cons.prems show ?thesis by simp
  next
    case (Suc j)
    with Cons.prems Cons.IH [of u j] show ?thesis by simp
  qed
qed

lemmas date_eval = date_list_def strptime_def format_regex_def alternative_matches_def is_space_def
  is_digit_def int_of_def digit_val_def days_in_month_def is_leap_def dt_less_def dt_key_def
  plus_hour_def strftime_def hour_label_def pad2_def pad4_def digit_char_def

lemma hour_label_isoformat:
  "hour_label t = field (isoformat t) 0 4 @ field (isoformat t) 5 2 @ field (isoformat t) 8 2
                  @ ''T'' @ field (isoformat t) 11 2"
  by (simp add: isoformat_def hour_label_def field_def pad4_def pad2_def)

section \<open>The interval expander\<close>

lemma date_list_raises_before_1900:
  "strptime ''1899-12-31 22:00:00'' =
     Inr \<lparr>year = 1899, month = 12, day = 31, hour = 22, minute = 0, second = 0\<rparr>
   \<and> date_list ''1899-12-31 22:00:00'' ''1899-12-31 22:00:00'' = Inl ValueError"
  by (simp add: date_eval)

lemma date_list_unpadded_hour:
  "strptime ''2020-01-01 0:00:00'' =
     Inr \<lparr>year = 2020, month = 1, day = 1, hour = 0, minute = 0, second = 0\<rparr>
   \<and> strptime ''2020-01-01 02:00:00'' =
     Inr \<lparr>year = 2020, month = 1, day = 1, hour = 2, minute = 0, second = 0\<rparr>
   \<and> ''2020-01-01 02:00:00'' < ''2020-01-01 0:00:00''
   \<and> date_list ''2020-01-01 0:00:00'' ''2020-01-01 02:00:00'' = Inr [''20200101T02'']"
  by (simp add: date_eval)

text \<open>
  Claim C5, as stated, fails at the end of the calendar: for the valid timestamps
  9999-12-31 23:00:00 and 9999-12-31 23:30:00 (start before end) the loop asks for the
  hour after the last hour of year 9999, and \<open>date_list\<close> raises OverflowError instead of
  returning a sequence. It fails in two more places. Before 1900 Python 2's
  \<^verbatim>\<open>strftime\<close> refuses the year (lemma \<open>date_list_raises_before_1900\<close>). And
  \<^verbatim>\<open>strptime\<close> reads a field that is written without its leading zero, while the
  start is chosen by comparing the two strings: \<^verbatim>\<open>'2020-01-01 0:00:00'\<close> is the later
  string of the pair in lemma \<open>date_list_unpadded_hour\<close>, so the list starts, and ends,
  at the hour of the other timestamp.
\<close>

theorem date_list_raises_in_last_hour:
  "strptime ''9999-12-31 23:00:00'' =
     Inr \<lparr>year = 9999, month = 12, day = 31, hour = 23, minute = 0, second = 0\<rparr>
   \<and> strptime ''9999-12-31 23:30:00'' =
     Inr \<lparr>year = 9999, month = 12, day = 31, hour = 23, minute = 30, second = 0\<rparr>
   \<and> ''9999-12-31 23:00:00'' < ''9999-12-31 23:30:00''
   \<and> date_list ''9999-12-31 23:00:00'' ''9999-12-31 23:30:00'' = Inl OverflowError"
  by (simp add: date_eval)

text \<open>
  Claim C5, amended. Let \<open>s\<close> and \<open>e\<close> be timestamps written in the form
  \<^verbatim>\<open>YYYY-MM-DD HH:MM:SS\<close> with every field at its full width, leading zeros included
  (\<open>isoformat\<close>), \<open>s\<close> not after \<open>e\<close>, \<open>s\<close> in year 1900 or later, and the hourly steps
  within the calendar (\<open>e\<close> before the last hour of year 9999, or the minute and second
  of \<open>e\<close> not after those of \<open>s\<close>). Then \<open>date_list\<close> returns the labels of a non-empty
  run of timestamps: the first is \<open>s\<close> itself, so its label is \<open>s\<close> truncated to the hour
  (the year, month, day and hour digits of the string \<open>s\<close>); the hour of the last is at
  or after the hour of \<open>e\<close>; each timestamp of the run is exactly one hour after the one
  before it; and when \<open>s\<close> and \<open>e\<close> are the same, the run has exactly one element.
\<close>

theorem date_list_shape:
  assumes "in_range start_time" and "in_range end_time"
    and "s = isoformat start_time" and "e = isoformat end_time"
    and "dt_key start_time \<le> dt_key end_time"
    and "1900 \<le> year start_time"
    and "steps_in_range start_time end_time"
  shows "\<exists>hours. date_list s e = Inr (map hour_label hours)
           \<and> hours \<noteq> [] \<and> hd hours = start_time
           \<and> hour_label start_time
               = field s 0 4 @ field s 5 2 @ field s 8 2 @ ''T'' @ field s 11 2
           \<and> hour_key end_time \<le> hour_key (last hours)
           \<and> (\<forall>i. Suc i < length hours \<longrightarrow> plus_hour (hours ! i) = Inr (hours ! Suc i))
           \<and> (s = e \<longrightarrow> length hours = 1)"
proof -
  have ps: "strptime s = Inr start_time"
    unfolding assms(3) by (rule strptime_isoformat [OF assms(1)])
  have pe: "strptime e = Inr end_time"
    unfolding assms(4) by (rule strptime_isoformat [OF assms(2)])
  have order: "(s < e) = (dt_key start_time < dt_key end_time)"
    unfolding assms(3) assms(4) by (rule isoformat_less [OF assms(1) assms(2)])
  have lab: "strftime start_time = Inr (hour_label start_time)"
    using assms(6) by (simp add: strftime_def)
  have fin: "hour_key end_time \<le> last_hour"
    using assms(2) by (rule in_range_hour_key)
  obtain us where us:
    "date_loop start_time end_time [hour_label start_time] =
       Inr ([hour_label start_time] @ map hour_label us)"
    "hourly start_time us" "\<not> dt_less (last (start_time # us)) end_time"
    "\<not> dt_less start_time end_time \<longrightarrow> us = []"
    using date_loop_shape [OF assms(6) fin assms(7), of "[hour_label start_time]"] by blast
  have run: "date_list s e = Inr (map hour_label (start_time # us))"
  proof (cases "s < e")
    case True
    then show ?thesis using ps pe lab us(1) by (simp add: date_list_def)
  next
    case False
    then have "dt_key start_time = dt_key end_time"
      using order assms(5) by simp
    then have same: "start_time = end_time" by (simp add: dt_key_def)
    then have "s = e" using assms(3) assms(4) by simp
    then show ?thesis using ps lab us(1) same by (simp add: date_list_def)
  qed
  have "dt_key end_time \<le> dt_key (last (start_time # us))"
    using us(3) by (simp add: dt_less_def not_less)
  then have fin_hour: "hour_key end_time \<le> hour_key (last (start_time # us))"
    by (rule hour_key_mono)
  have step: "\<forall>i. Suc i < length (start_time # us) \<longrightarrow>
      plus_hour ((start_time # us) ! i) = Inr ((start_time # us) ! Suc i)"
    using hourly_nth [OF us(2)] by blast
  have one: "s = e \<longrightarrow> length (start_time # us) = 1"
  proof
    assume "s = e"
    then have "start_time = end_time" using ps pe by simp
    then have "\<not> dt_less start_time end_time" by (simp add: dt_less_def)
    with us(4) show "length (start_time # us) = 1" by simp
  qed
  have label: "hour_label start_time
               = field s 0 4 @ field s 5 2 @ field s 8 2 @ ''T'' @ field s 11 2"
    unfolding assms(3) by (rule hour_label_isoformat)
  show ?thesis
    using run fin_hour step one label
    by (intro exI [of _ "start_time # us"]) simp
qed

theorem date_list_shape_witness:
  "\<exists>hours. date_list ''2020-01-01 00:00:00'' ''2020-01-01 02:00:00'' = Inr (map hour_label hours)
           \<and> hours \<noteq> []
           \<and> hd hours = \<lparr>year = 2020, month = 1, day = 1, hour = 0, minute = 0, second = 0\<rparr>
           \<and> hour_label \<lparr>year = 2020, month = 1, day = 1, hour = 0, minute = 0, second = 0\<rparr>
               = field ''2020-01-01 00:00:00'' 0 4 @ field ''2020-01-01 00:00:00'' 5 2
                 @ field ''2020-01-01 00:00:00'' 8 2 @ ''T'' @ field ''2020-01-01 00:00:00'' 11 2
           \<and> hour_key \<lparr>year = 2020, month = 1, day = 1, hour = 2, minute = 0, second = 0\<rparr>
               \<le> hour_key (last hours)
           \<and> (\<forall>i. Suc i < length hours \<longrightarrow> plus_hour (hours ! i) = Inr (hours ! Suc i))
           \<and> (''2020-01-01 00:00:00'' = ''2020-01-01 02:00:00'' \<longrightarrow> length hours = 1)"
  by (rule date_list_shape)
     (simp_all add: in_range_def isoformat_def days_in_month_def dt_key_def pad2_def pad4_def
        digit_char_def steps_in_range_def hour_key_def last_hour_def)

text \<open>
  Claim C9. \<open>date_list\<close> takes the smaller of its two argument strings as start and the
  other as end, so the order of the arguments does not matter: both calls give the same
  list, or raise the same exception. This holds for all strings, timestamps or not.
\<close>

theorem date_list_symmetric: "date_list a b = date_list b a"
proof -
  consider "a < b" | "b < a" | "a = b" by (metis not_less_iff_gr_or_eq)
  then show ?thesis
  proof cases
    case 1
    then have "\<not> b < a" by simp
    with 1 show ?thesis by (simp add: date_list_def)
  next
    case 2
    then have "\<not> a < b" by simp
    with 2 show ?thesis by (simp add: date_list_def)
  next
    case 3
    then show ?thesis by simp
  qed
qed

theorem date_list_symmetric_witness:
  "date_list ''2020-01-01 02:00:00'' ''2020-01-01 00:00:00'' =
     Inr [''20200101T00'', ''20200101T01'', ''20200101T02'']"
proof -
  have "date_list ''2020-01-01 00:00:00'' ''2020-01-01 02:00:00'' =
          Inr [''20200101T00'', ''20200101T01'', ''20200101T02'']"
    by (simp add: date_eval)
  then show ?thesis
    using date_list_symmetric [of "''2020-01-01 02:00:00''" "''2020-01-01 00:00:00''"] by simp
qed

section \<open>The replay executor\<close>

lemmas playback_eval = get_driver_def rows_of_def get_reader_type_def item_def str_lower_def
  lower_char_def visit_def one_instrument_def slow_player_def no_files_def fresh_process_def

lemma call_in_time:
  assumes "alarm p = Some left" and "call_seconds w (clock p) command < left"
  shows "call w command p =
           (p\<lparr>trace := trace p @ [Call command (call_seconds w (clock p) command)],
              alarm := Some (left - call_seconds w (clock p) command)\<rparr>, None)"
  using assms by (simp add: call_def Let_def)

lemma call_times_out:
  assumes "alarm p = Some left" and "left \<le> call_seconds w (clock p) command"
    and "sigalrm p = Some timeout_handler"
  shows "call w command p =
           (p\<lparr>trace := trace p @ [Call command left], alarm := None\<rparr>, Some TimeoutException)"
  using assms by (simp add: call_def Let_def timeout_handler_def)

lemma call_without_handler:
  assumes "alarm p = Some left" and "left \<le> call_seconds w (clock p) command"
    and "sigalrm p = None"
  shows "call w command p =
           (p\<lparr>trace := trace p @ [Call command left], alarm := None\<rparr>, Some Killed)"
  using assms by (simp add: call_def Let_def)

lemma playback_body_visit:
  assumes "reader \<noteq> NaN" and "sigalrm p = Some timeout_handler"
  shows "playback_body w ''/rsn_cabled/rsn_data/DVT_Data'' node instrument (Str driver) refdes
           event_url particle_url reader date p =
         (p\<lparr>clock := Suc (clock p),
            trace := trace p
              @ visit w node instrument driver refdes event_url particle_url
                  (clock p, reader, date),
            alarm := (if visit w node instrument driver refdes event_url particle_url
                           (clock p, reader, date) = []
                      then alarm p else None)\<rparr>, None)"
proof -
  obtain r where r: "reader = Str r" using assms(1) by (cases reader) auto
  let ?directory = "''/rsn_cabled/rsn_data/DVT_Data/'' @ node @ ''/'' @ instrument
                    @ ''*'' @ date @ ''*''"
  let ?command = "''playback '' @ r @ '' '' @ driver @ '' '' @ refdes @ '' ''
                  @ event_url @ '' '' @ particle_url @ '' '' @ ?directory"
  let ?armed = "signal_alarm 90 (logging_info ?command p)"
  have armed: "alarm ?armed = Some 90" "sigalrm ?armed = Some timeout_handler"
    "clock ?armed = clock p" "trace ?armed = trace p @ [Info ?command]"
    using assms(2) by (simp_all add: signal_alarm_def logging_info_def)
  show ?thesis
  proof (cases "glob_glob w (clock p) ?directory")
    case False
    then show ?thesis
      by (simp add: playback_body_def visit_def r Let_def)
  next
    case True
    show ?thesis
    proof (cases "call_seconds w (clock p) ?command < 90")
      case True
      have "call w ?command ?armed =
              (?armed\<lparr>trace := trace ?armed @ [Call ?command (call_seconds w (clock p) ?command)],
                 alarm := Some (90 - call_seconds w (clock p) ?command)\<rparr>, None)"
        using call_in_time [of ?armed 90 w ?command] armed True by simp
      then show ?thesis
        using True \<open>glob_glob w (clock p) ?directory\<close>
        by (simp add: playback_body_def visit_def r Let_def join_cells_def signal_alarm_def
            logging_info_def min_def)
    next
      case False
      have "call w ?command ?armed =
              (?armed\<lparr>trace := trace ?armed @ [Call ?command 90], alarm := None\<rparr>,
               Some TimeoutException)"
        using call_times_out [of ?armed 90 w ?command] armed False by simp
      then show ?thesis
        using False \<open>glob_glob w (clock p) ?directory\<close>
        by (simp add: playback_body_def visit_def r Let_def join_cells_def signal_alarm_def
            logging_info_def logging_warning_def min_def)
    qed
  qed
qed

lemma advance_advance: "advance (advance p m xs) n ys = advance p (m + n) (xs @ ys)"
  by (simp add: advance_def)

lemma sigalrm_advance: "sigalrm (advance p n xs) = sigalrm p"
  by (simp add: advance_def)

lemma clock_advance: "clock (advance p n xs) = clock p + n"
  by (simp add: advance_def)

lemma playback_body_advance:
  assumes "reader \<noteq> NaN" and "sigalrm p = Some timeout_handler"
  shows "playback_body w ''/rsn_cabled/rsn_data/DVT_Data'' node instrument (Str driver) refdes
           event_url particle_url reader date p =
         (advance p 1 (visit w node instrument driver refdes event_url particle_url
                         (clock p, reader, date)), None)"
  using playback_body_visit [OF assms] by (simp add: advance_def)

lemma dates_loop:
  assumes "reader \<noteq> NaN" and "sigalrm p = Some timeout_handler"
  shows "for_loop (playback_body w ''/rsn_cabled/rsn_data/DVT_Data'' node instrument
                     (Str driver) refdes event_url particle_url reader) dates p =
         (advance p (length dates)
            (concat (map (visit w node instrument driver refdes event_url particle_url)
                       (enumerate (clock p) (map (Pair reader) dates)))), None)"
  using assms(2)
proof (induction dates arbitrary: p)
  case Nil
  show ?case by (simp add: advance_def)
next
  case (Cons date dates)
  let ?q = "advance p 1 (visit w node instrument driver refdes event_url particle_url
                           (clock p, reader, date))"
  have q: "sigalrm ?q = Some timeout_handler" using Cons.prems by (simp add: sigalrm_advance)
  have "for_loop (playback_body w ''/rsn_cabled/rsn_data/DVT_Data'' node instrument
                     (Str driver) refdes event_url particle_url reader) (date # dates) p =
        for_loop (playback_body w ''/rsn_cabled/rsn_data/DVT_Data'' node instrument
                     (Str driver) refdes event_url particle_url reader) dates ?q"
    by (simp add: playback_body_advance [OF assms(1) Cons.prems])
  also have "\<dots> =
        (advance ?q (length dates)
           (concat (map (visit w node instrument driver refdes event_url particle_url)
                      (enumerate (clock ?q) (map (Pair reader) dates)))), None)"
    by (rule Cons.IH [OF q])
  finally show ?case by (simp add: advance_advance clock_advance)
qed

lemma readers_loop:
  assumes "NaN \<notin> set readers" and "sigalrm p = Some timeout_handler"
  shows "for_loop
           (\<lambda>reader. for_loop (playback_body w ''/rsn_cabled/rsn_data/DVT_Data'' node
                                  instrument (Str driver) refdes event_url particle_url reader)
                        dates) readers p =
         (advance p (length readers * length dates)
            (concat (map (visit w node instrument driver refdes event_url particle_url)
                       (enumerate (clock p) (List.product readers dates)))), None)"
  using assms
proof (induction readers arbitrary: p)
  case Nil
  show ?case by (simp add: advance_def)
next
  case (Cons reader readers)
  then have r: "reader \<noteq> NaN" and rs: "NaN \<notin> set readers" by auto
  let ?body = "\<lambda>reader. for_loop (playback_body w ''/rsn_cabled/rsn_data/DVT_Data'' node
                                  instrument (Str driver) refdes event_url particle_url reader)
                        dates"
  let ?q = "advance p (length dates)
              (concat (map (visit w node instrument driver refdes event_url particle_url)
                         (enumerate (clock p) (map (Pair reader) dates))))"
  have q: "sigalrm ?q = Some timeout_handler" using Cons.prems(2) by (simp add: sigalrm_advance)
  have "for_loop ?body (reader # readers) p = for_loop ?body readers ?q"
    by (simp add: dates_loop [OF r Cons.prems(2)])
  also have "\<dots> =
        (advance ?q (length readers * length dates)
           (concat (map (visit w node instrument driver refdes event_url particle_url)
                      (enumerate (clock ?q) (List.product readers dates)))), None)"
    by (rule Cons.IH [OF rs q])
  finally show ?case
    by (simp add: advance_advance clock_advance enumerate_append_eq add.commute)
qed

lemma playback_without_handler:
  "snd (for_loop
          (playback_body slow_player ''/rsn_cabled/rsn_data/DVT_Data'' ''lj01a'' ''HYDLFA''
             (Str ''d'') ''RS01SLBS-LJ01A-05-HYDLFA'' ''e'' ''p'' (Str ''x''))
          [''20200101T00'', ''20200101T01''] fresh_process) = Some Killed"
  by (simp add: playback_body_def join_cells_def call_def signal_alarm_def logging_info_def
      slow_player_def fresh_process_def Let_def)

text \<open>
  Claim C8. \<open>playback\<close> installs \<open>timeout_handler\<close> for SIGALRM, sets an alarm of 90
  seconds before every command, and catches the TimeoutException that the handler raises
  inside \<^verbatim>\<open>call\<close>. So, once its look-ups have succeeded (the instrument has a driver,
  its designator has the node and instrument parts, no reader type is NaN), whatever the
  commands do and whatever alarm and handler the process had before, \<open>playback\<close> returns
  normally: no timeout reaches the caller. It examines every (reader type, slice) pair
  exactly once, reader types in the outer loop, and what it adds to the trace after the
  record of its own call is the sequence of the pairs' own events (\<open>visit\<close>), each
  depending only on what the world answers for that pair: a pair is never tried again.
  For a pair with data, the command is logged and started, the script waits for it 90
  seconds at most, and when the 90 seconds pass it logs the warning that names the full
  command and goes on with the next pair. No alarm is left pending once a command has
  been started. (The bound is on the time the script waits: the command itself is not
  stopped. Without the handler the first slow command would end the process, lemma
  \<open>playback_without_handler\<close>.)
\<close>

theorem playback_timeout_isolated:
  assumes "get_driver cabled_drivers_raw refdes = Inr (Str driver)"
    and "item (str_split CHR ''-'' refdes) 1 = Inr part"
    and "item (str_split CHR ''-'' refdes) 3 = Inr instrument"
    and "NaN \<notin> set (get_reader_type cabled_drivers_raw refdes)"
  shows "playback w cabled_drivers_raw refdes event_url particle_url missing_dates p =
           (p\<lparr>clock := clock p
                   + length (get_reader_type cabled_drivers_raw refdes) * length missing_dates,
              trace := trace p @ [Playback refdes missing_dates]
                 @ concat (map (visit w (str_lower part) instrument driver refdes event_url
                                  particle_url)
                             (enumerate (clock p)
                                (List.product (get_reader_type cabled_drivers_raw refdes)
                                   missing_dates))),
              alarm := (if concat (map (visit w (str_lower part) instrument driver refdes
                                         event_url particle_url)
                                    (enumerate (clock p)
                                       (List.product (get_reader_type cabled_drivers_raw refdes)
                                          missing_dates))) = []
                        then alarm p else None),
              sigalrm := Some timeout_handler\<rparr>, None)"
proof -
  let ?entered = "signal_signal timeout_handler (p\<lparr>trace := trace p @ [Playback refdes missing_dates]\<rparr>)"
  have handler: "sigalrm ?entered = Some timeout_handler" by (simp add: signal_signal_def)
  have "playback w cabled_drivers_raw refdes event_url particle_url missing_dates p =
          for_loop
            (\<lambda>reader. for_loop (playback_body w ''/rsn_cabled/rsn_data/DVT_Data''
                                   (str_lower part) instrument (Str driver) refdes event_url
                                   particle_url reader) missing_dates)
            (get_reader_type cabled_drivers_raw refdes) ?entered"
    using assms(1) assms(2) assms(3) by (simp add: playback_def Let_def)
  also have "\<dots> =
           (advance ?entered
              (length (get_reader_type cabled_drivers_raw refdes) * length missing_dates)
              (concat (map (visit w (str_lower part) instrument driver refdes event_url
                              particle_url)
                         (enumerate (clock ?entered)
                            (List.product (get_reader_type cabled_drivers_raw refdes)
                               missing_dates)))), None)"
    by (rule readers_loop [OF assms(4) handler])
  finally show ?thesis by (simp add: signal_signal_def advance_def)
qed

theorem playback_timeout_isolated_witness:
  "playback slow_player one_instrument ''RS01SLBS-LJ01A-05-HYDLFA'' ''e'' ''p''
     [''20200101T00'', ''20200101T01''] fresh_process =
   (\<lparr>ingests = Some Map.empty, clock = 2,
      trace =
        [Playback ''RS01SLBS-LJ01A-05-HYDLFA'' [''20200101T00'', ''20200101T01''],
         Info ''playback x d RS01SLBS-LJ01A-05-HYDLFA e p /rsn_cabled/rsn_data/DVT_Data/lj01a/HYDLFA*20200101T00*'',
         Call ''playback x d RS01SLBS-LJ01A-05-HYDLFA e p /rsn_cabled/rsn_data/DVT_Data/lj01a/HYDLFA*20200101T00*'' 90,
         Warning ''playback x d RS01SLBS-LJ01A-05-HYDLFA e p /rsn_cabled/rsn_data/DVT_Data/lj01a/HYDLFA*20200101T00* Took more than 90 seconds. Timing out this ingestion.'',
         Info ''playback x d RS01SLBS-LJ01A-05-HYDLFA e p /rsn_cabled/rsn_data/DVT_Data/lj01a/HYDLFA*20200101T01*'',
         Call ''playback x d RS01SLBS-LJ01A-05-HYDLFA e p /rsn_cabled/rsn_data/DVT_Data/lj01a/HYDLFA*20200101T01*'' 5],
      alarm = None, sigalrm = Some timeout_handler\<rparr>,
    None)"
proof -
  have driver: "get_driver one_instrument ''RS01SLBS-LJ01A-05-HYDLFA'' = Inr (Str ''d'')"
    by (simp add: playback_eval)
  have part: "item (str_split CHR ''-'' ''RS01SLBS-LJ01A-05-HYDLFA'') 1 = Inr ''LJ01A''"
    by (simp add: playback_eval)
  have instrument: "item (str_split CHR ''-'' ''RS01SLBS-LJ01A-05-HYDLFA'') 3 = Inr ''HYDLFA''"
    by (simp add: playback_eval)
  have readers: "NaN \<notin> set (get_reader_type one_instrument ''RS01SLBS-LJ01A-05-HYDLFA'')"
    by (simp add: playback_eval)
  show ?thesis
    using playback_timeout_isolated [OF driver part instrument readers, of slow_player "''e''"
        "''p''" "[''20200101T00'', ''20200101T01'']" fresh_process]
    by (simp add: playback_eval Let_def)
qed

section \<open>The run coordinator\<close>





lemma main_never_persists:
  "fst (main w event_url particle_url server) = pickle_files w"
  by (simp add: main_def Let_def split: prod.splits)


lemma main_load_raises:
  "main (no_files\<lparr>pickle_files := [''previous_ingest.pickle'' \<mapsto> Map.empty]\<rparr>) ''e'' ''p'' ''s'' =
     ([''previous_ingest.pickle'' \<mapsto> Map.empty],
      \<lparr>ingests = Some Map.empty, clock = 0, trace = []\<rparr>, Some NameError)"
  by (simp add: main_def no_files_def slow_player_def)



text \<open>
  Claim C4. \<open>main\<close> has no call of \<open>write_previous_ingests\<close>: on every path the pickle
  files are left as they were found (lemma \<open>main_never_persists\<close>). A run with an
  instrument in the catalog and nothing missing completes normally, and afterwards
  there is still no file \<^verbatim>\<open>previous_ingests.pickle\<close>. (A run with a missing date does
  not complete at all: the call of \<^verbatim>\<open>is_in_previous_ingests\<close> by its bare name
  raises NameError, lemma \<open>main_first_gap_raises\<close>.)
\<close>

theorem main_completes_without_persisting:
  "main no_files ''e'' ''p'' ''s'' =
     (Map.empty, \<lparr>ingests = Some Map.empty, clock = 0, trace = []\<rparr>, None)
   \<and> fst (main no_files ''e'' ''p'' ''s'') ''previous_ingests.pickle'' = None"
  by (simp add: main_def no_files_def slow_player_def one_instrument_def
      request_cabled_raw_def fill_type_def fold_designator_def shift1_def is_cabled_def
      rows_of_def ingest_missing_def)

end
